theory Spec2Isabelle
  imports Main
begin

section \<open>Data model\<close>

text \<open>
  Times are milliseconds since the epoch. One clock reading \<open>now\<close> is taken per call of a
  service operation: it stands both for JavaScript's \<open>new Date()\<close> and for the store's
  \<open>CURRENT_TIMESTAMP\<close> during that call.
\<close>

type_synonym time = nat

text \<open>
  The service throws \<open>new Error(message)\<close>; an error is identified by its message. Every
  other exception comes out of the database driver and is passed on unchanged by
  \<open>executeQuery\<close>: it is the one value \<open>StoreFault\<close>.
\<close>

datatype error = Error string | StoreFault

definition DuplicateUsername :: error where
  "DuplicateUsername = Error ''Username already exists''"

definition DuplicateEmail :: error where
  "DuplicateEmail = Error ''Email already exists''"

definition CreationFailed :: error where
  "CreationFailed = Error ''Failed to create user''"

definition InvalidCredentials :: error where
  "InvalidCredentials = Error ''Invalid credentials''"

definition MissingToken :: error where
  "MissingToken = Error ''Refresh token is required''"

definition InvalidOrExpiredToken :: error where
  "InvalidOrExpiredToken = Error ''Invalid or expired refresh token''"

definition UserNotFound :: error where
  "UserNotFound = Error ''User not found''"

text \<open>Rows of the tables \<open>HMS_USERS\<close> and \<open>HMS_REFRESH_TOKENS\<close>, columns named as in the SQL.\<close>

record user_row =
  ID :: nat
  USERNAME :: string
  EMAIL :: string
  PASSWORD_HASH :: string
  CREATED_AT :: time
  UPDATED_AT :: time

record token_row =
  USER_ID :: nat
  TOKEN :: string
  EXPIRES_AT :: time
  RT_CREATED_AT :: time
  IS_REVOKED :: bool

text \<open>
  The eight statements the service sends, each with its bind values, under the names of
  the variables that hold them; the source calls three of them \<open>getUserSql\<close>: the one
  of \<open>registerUser\<close> keeps the name, the one of \<open>loginUser\<close> is \<open>loginUserSql\<close> and
  the one of \<open>getUserById\<close> is \<open>getUserByIdSql\<close>. In a \<open>WHERE\<close> clause \<open>=\<close> is equality
  of strings.
\<close>

datatype stmt =
    checkUserSql string string
  | insertUserSql string string string
  | getUserSql string
  | loginUserSql string
  | insertTokenSql nat string time
  | checkTokenSql string
  | revokeSql string
  | getUserByIdSql nat

text \<open>
  The database: the two tables, the counter of user ids, and the order in which the
  store hands back the rows of a \<open>SELECT\<close>. No statement of the service has an
  \<open>ORDER BY\<close>, so that order is the store's choice; it is a parameter: the rows of a
  statement come back sorted by a rank the store gives them (\<open>row_rank\<close>, which may
  differ from statement to statement).
\<close>

record database =
  users :: "user_row list"
  tokens :: "token_row list"
  next_id :: nat
  row_rank :: "stmt \<Rightarrow> user_row \<Rightarrow> nat"

datatype event =
    Acquired
  | Execute stmt
  | BeginTransaction
  | Commit
  | Rollback
  | Released
  | BcryptHash

text \<open>
  The process state: the database, the module variable \<open>pool\<close> of connection.js (created
  or not), the number of connections checked out of the pool and not yet released, the
  faults the driver is going to raise (one entry is consumed by every call into the
  driver, \<open>True\<close> meaning that the call throws; an exhausted list means no fault), and
  the calls made so far.
\<close>

record state =
  db :: database
  pool :: bool
  in_use :: nat
  faults :: "bool list"
  trace :: "event list"

section \<open>The store\<close>

definition in_store_order :: "database \<Rightarrow> stmt \<Rightarrow> user_row list \<Rightarrow> user_row list" where
  "in_store_order d q rows = sort_key (row_rank d q) rows"

text \<open>The user rows that satisfy the \<open>WHERE\<close> clause of statement \<open>q\<close>, as the store returns them.\<close>

definition matching_users :: "stmt \<Rightarrow> (user_row \<Rightarrow> bool) \<Rightarrow> database \<Rightarrow> user_row list" where
  "matching_users q p d = in_store_order d q (filter p (users d))"

definition active_token :: "time \<Rightarrow> string \<Rightarrow> token_row \<Rightarrow> bool" where
  "active_token now t r \<longleftrightarrow> TOKEN r = t \<and> \<not> IS_REVOKED r \<and> now < EXPIRES_AT r"

text \<open>
  The join of \<open>checkTokenSql\<close>: for every token row that matches, the user rows with
  \<open>U.ID = RT.USER_ID\<close>; the selected columns are the user's.
\<close>

definition check_token :: "time \<Rightarrow> string \<Rightarrow> database \<Rightarrow> user_row list" where
  "check_token now t d =
     in_store_order d (checkTokenSql t)
       (concat (map (\<lambda>r. filter (\<lambda>u. ID u = USER_ID r) (users d))
                    (filter (active_token now t) (tokens d))))"

definition revoke :: "string \<Rightarrow> token_row \<Rightarrow> token_row" where
  "revoke t r = (if TOKEN r = t \<and> \<not> IS_REVOKED r then r\<lparr>IS_REVOKED := True\<rparr> else r)"

text \<open>
  Modelled from the spec: the table definition of \<open>HMS_USERS\<close> is not part of the
  sources. The spec's persisted schema is \<open>Users(id PK, username UNIQUE, email UNIQUE)\<close>
  with a server-generated id: an insert whose user name or e-mail address is already
  there is rejected by the store and changes nothing, and the id of a new row is the
  next value of a counter (\<open>next_id\<close>).
\<close>

definition user_insertable :: "string \<Rightarrow> string \<Rightarrow> database \<Rightarrow> bool" where
  "user_insertable u e d \<longleftrightarrow> u \<notin> USERNAME ` set (users d) \<and> e \<notin> EMAIL ` set (users d)"

text \<open>
  Modelled from the spec: the table definition of \<open>HMS_REFRESH_TOKENS\<close> is not part of
  the sources. The spec's persisted schema is
  \<open>RefreshTokens(userId FK \<rightarrow> Users.id, token UNIQUE)\<close>: an insert whose owner is not a
  user, or whose token is already there, is rejected by the store and changes nothing.
\<close>

definition token_insertable :: "nat \<Rightarrow> string \<Rightarrow> database \<Rightarrow> bool" where
  "token_insertable uid t d \<longleftrightarrow> uid \<in> ID ` set (users d) \<and> t \<notin> TOKEN ` set (tokens d)"

text \<open>
  What a statement returns and does to the database, from its text in authService.js;
  the two inserts are guarded by the constraints above. A statement that is not a
  \<open>SELECT\<close> returns no rows the service reads.
\<close>

fun run_sql :: "time \<Rightarrow> stmt \<Rightarrow> database \<Rightarrow> (error + user_row list) \<times> database" where
  "run_sql now (checkUserSql u e) d =
     (Inr (matching_users (checkUserSql u e) (\<lambda>r. USERNAME r = u \<or> EMAIL r = e) d), d)"
| "run_sql now (insertUserSql u e h) d =
     (if user_insertable u e d
      then (Inr [],
            d\<lparr>users := users d @
                 [\<lparr>ID = next_id d, USERNAME = u, EMAIL = e, PASSWORD_HASH = h,
                   CREATED_AT = now, UPDATED_AT = now\<rparr>],
              next_id := Suc (next_id d)\<rparr>)
      else (Inl StoreFault, d))"
| "run_sql now (getUserSql u) d =
     (Inr (matching_users (getUserSql u) (\<lambda>r. USERNAME r = u) d), d)"
| "run_sql now (loginUserSql u) d =
     (Inr (matching_users (loginUserSql u) (\<lambda>r. USERNAME r = u \<or> EMAIL r = u) d), d)"
| "run_sql now (insertTokenSql uid t expiresAt) d =
     (if token_insertable uid t d
      then (Inr [],
            d\<lparr>tokens := tokens d @
                 [\<lparr>USER_ID = uid, TOKEN = t, EXPIRES_AT = expiresAt,
                   RT_CREATED_AT = now, IS_REVOKED = False\<rparr>]\<rparr>)
      else (Inl StoreFault, d))"
| "run_sql now (checkTokenSql t) d = (Inr (check_token now t d), d)"
| "run_sql now (revokeSql t) d = (Inr [], d\<lparr>tokens := map (revoke t) (tokens d)\<rparr>)"
| "run_sql now (getUserByIdSql uid) d =
     (Inr (matching_users (getUserByIdSql uid) (\<lambda>r. ID r = uid) d), d)"

section \<open>connection.js\<close>

definition next_fault :: "state \<Rightarrow> bool \<times> state" where
  "next_fault s = (case faults s of [] \<Rightarrow> (False, s) | b # bs \<Rightarrow> (b, s\<lparr>faults := bs\<rparr>))"

definition initializePool :: "state \<Rightarrow> (error + unit) \<times> state" where
  "initializePool s =
     (case next_fault s of
        (True, s1) \<Rightarrow> (Inl StoreFault, s1)
      | (False, s1) \<Rightarrow> (Inr (), s1\<lparr>pool := True\<rparr>))"

definition pool_getConnection :: "state \<Rightarrow> (error + unit) \<times> state" where
  "pool_getConnection s =
     (case next_fault s of
        (True, s1) \<Rightarrow> (Inl StoreFault, s1)
      | (False, s1) \<Rightarrow> (Inr (), s1\<lparr>in_use := Suc (in_use s1), trace := trace s1 @ [Acquired]\<rparr>))"

definition getConnection :: "state \<Rightarrow> (error + unit) \<times> state" where
  "getConnection s =
     (if \<not> pool s
      then (case initializePool s of
              (Inl e, s1) \<Rightarrow> (Inl e, s1)
            | (Inr _, s1) \<Rightarrow> pool_getConnection s1)
      else pool_getConnection s)"

definition execute :: "time \<Rightarrow> stmt \<Rightarrow> state \<Rightarrow> (error + user_row list) \<times> state" where
  "execute now sql s =
     (case next_fault (s\<lparr>trace := trace s @ [Execute sql]\<rparr>) of
        (True, s1) \<Rightarrow> (Inl StoreFault, s1)
      | (False, s1) \<Rightarrow> (case run_sql now sql (db s1) of (r, d) \<Rightarrow> (r, s1\<lparr>db := d\<rparr>)))"

definition release :: "state \<Rightarrow> state" where
  "release s = s\<lparr>in_use := in_use s - 1, trace := trace s @ [Released]\<rparr>"

text \<open>
  \<open>executeQuery\<close>: when \<open>getConnection\<close> throws, \<open>connection\<close> is still undefined, so the
  \<open>finally\<close> block releases nothing; otherwise the \<open>finally\<close> block releases the
  connection, whether \<open>execute\<close> returned or threw. The \<open>catch\<close> block rethrows the error
  it caught.
\<close>

definition executeQuery :: "time \<Rightarrow> stmt \<Rightarrow> state \<Rightarrow> (error + user_row list) \<times> state" where
  "executeQuery now sql s =
     (case getConnection s of
        (Inl e, s1) \<Rightarrow> (Inl e, s1)
      | (Inr _, s1) \<Rightarrow> (case execute now sql s1 of (r, s2) \<Rightarrow> (r, release s2)))"

definition beginTransaction :: "state \<Rightarrow> (error + unit) \<times> state" where
  "beginTransaction s =
     (case next_fault (s\<lparr>trace := trace s @ [BeginTransaction]\<rparr>) of
        (True, s1) \<Rightarrow> (Inl StoreFault, s1)
      | (False, s1) \<Rightarrow> (Inr (), s1))"

definition commit :: "state \<Rightarrow> (error + unit) \<times> state" where
  "commit s =
     (case next_fault (s\<lparr>trace := trace s @ [Commit]\<rparr>) of
        (True, s1) \<Rightarrow> (Inl StoreFault, s1)
      | (False, s1) \<Rightarrow> (Inr (), s1))"

definition rollback :: "state \<Rightarrow> (error + unit) \<times> state" where
  "rollback s =
     (case next_fault (s\<lparr>trace := trace s @ [Rollback]\<rparr>) of
        (True, s1) \<Rightarrow> (Inl StoreFault, s1)
      | (False, s1) \<Rightarrow> (Inr (), s1))"

text \<open>
  The \<open>try\<close> block of \<open>executeTransaction\<close> after the connection is there:
  \<open>beginTransaction\<close>, the callback, \<open>commit\<close>; the first step that throws ends it.
  The callback is any function of the state that returns or throws.
\<close>

definition transaction_body ::
  "(state \<Rightarrow> (error + 'a) \<times> state) \<Rightarrow> state \<Rightarrow> (error + unit) \<times> state" where
  "transaction_body callback s =
     (case beginTransaction s of
        (Inl e, s1) \<Rightarrow> (Inl e, s1)
      | (Inr _, s1) \<Rightarrow>
          (case callback s1 of
             (Inl e, s2) \<Rightarrow> (Inl e, s2)
           | (Inr _, s2) \<Rightarrow> commit s2))"

text \<open>
  \<open>executeTransaction\<close>: the \<open>catch\<close> block rolls back when a connection is there and
  rethrows (an error thrown by \<open>rollback\<close> itself replaces the first one); the
  \<open>finally\<close> block releases the connection when there is one.
\<close>

definition executeTransaction ::
  "(state \<Rightarrow> (error + 'a) \<times> state) \<Rightarrow> state \<Rightarrow> (error + unit) \<times> state" where
  "executeTransaction callback s =
     (case getConnection s of
        (Inl e, s1) \<Rightarrow> (Inl e, s1)
      | (Inr _, s1) \<Rightarrow>
          (case transaction_body callback s1 of
             (Inr _, s2) \<Rightarrow> (Inr (), release s2)
           | (Inl e, s2) \<Rightarrow>
               (case rollback s2 of
                  (Inl e', s3) \<Rightarrow> (Inl e', release s3)
                | (Inr _, s3) \<Rightarrow> (Inl e, release s3))))"

section \<open>authService.js\<close>

text \<open>
  The hashing and signing primitives come from \<open>bcrypt\<close> and from \<open>../utils/jwt\<close>, which
  are not part of the sources: they are parameters. \<open>bcrypt_hash\<close> takes the password,
  the work factor and the salt it draws; the token generators take the claims and the
  time of issue; \<open>verifyRefreshToken\<close> says whether the token verifies at the given time
  (the source only looks at whether it throws).

  The date arithmetic of the JavaScript runtime is a parameter too: \<open>setDate_plus t n\<close>
  is the instant that \<open>d.setDate(d.getDate() + n)\<close> leaves in a \<open>Date\<close> that held \<open>t\<close>,
  that is the same wall-clock time \<open>n\<close> calendar days later in the time zone of the
  process. It is \<open>t\<close> plus \<open>n\<close> times 24 hours only when the zone's clock does not
  change in between.
\<close>

record prims =
  bcrypt_hash :: "string \<Rightarrow> nat \<Rightarrow> string \<Rightarrow> string"
  bcrypt_compare :: "string \<Rightarrow> string \<Rightarrow> bool"
  generateAccessToken :: "nat \<Rightarrow> string \<Rightarrow> string \<Rightarrow> time \<Rightarrow> string"
  generateRefreshToken :: "nat \<Rightarrow> time \<Rightarrow> string"
  verifyRefreshToken :: "string \<Rightarrow> time \<Rightarrow> bool"
  setDate_plus :: "time \<Rightarrow> nat \<Rightarrow> time"

definition SALT_ROUNDS :: nat where
  "SALT_ROUNDS = 10"

record user_view =
  id' :: nat
  username :: string
  email :: string

record created_user = user_view +
  createdAt :: time

record user_details = created_user +
  updatedAt :: time

record refresh_result =
  accessToken :: string
  user :: user_view

record login_result = refresh_result +
  refreshToken :: string

text \<open>
  The duplicate check of \<open>registerUser\<close>: only the first row of the result is looked at,
  its user name before its e-mail address.
\<close>

definition duplicate_error :: "string \<Rightarrow> string \<Rightarrow> user_row list \<Rightarrow> error option" where
  "duplicate_error u e existingUsers =
     (case existingUsers of
        [] \<Rightarrow> None
      | existing # _ \<Rightarrow>
          if USERNAME existing = u then Some DuplicateUsername
          else if EMAIL existing = e then Some DuplicateEmail
          else None)"

definition registerUser ::
  "prims \<Rightarrow> time \<Rightarrow> string \<Rightarrow> string \<Rightarrow> string \<Rightarrow> string \<Rightarrow> state \<Rightarrow> (error + created_user) \<times> state" where
  "registerUser P now u e password salt s =
     (case executeQuery now (checkUserSql u e) s of
        (Inl err, s1) \<Rightarrow> (Inl err, s1)
      | (Inr existingUsers, s1) \<Rightarrow>
          (case duplicate_error u e existingUsers of
             Some err \<Rightarrow> (Inl err, s1)
           | None \<Rightarrow>
               (let passwordHash = bcrypt_hash P password SALT_ROUNDS salt;
                    s2 = s1\<lparr>trace := trace s1 @ [BcryptHash]\<rparr>
                in case executeQuery now (insertUserSql u e passwordHash) s2 of
                     (Inl err, s3) \<Rightarrow> (Inl err, s3)
                   | (Inr _, s3) \<Rightarrow>
                       (case executeQuery now (getUserSql u) s3 of
                          (Inl err, s4) \<Rightarrow> (Inl err, s4)
                        | (Inr [], s4) \<Rightarrow> (Inl CreationFailed, s4)
                        | (Inr (row # _), s4) \<Rightarrow>
                            (Inr \<lparr>id' = ID row, username = USERNAME row, email = EMAIL row,
                                  createdAt = CREATED_AT row\<rparr>, s4)))))"

definition loginUser ::
  "prims \<Rightarrow> time \<Rightarrow> string \<Rightarrow> string \<Rightarrow> state \<Rightarrow> (error + login_result) \<times> state" where
  "loginUser P now u password s =
     (case executeQuery now (loginUserSql u) s of
        (Inl err, s1) \<Rightarrow> (Inl err, s1)
      | (Inr [], s1) \<Rightarrow> (Inl InvalidCredentials, s1)
      | (Inr (row # _), s1) \<Rightarrow>
          (if \<not> bcrypt_compare P password (PASSWORD_HASH row)
           then (Inl InvalidCredentials, s1)
           else
             (let access = generateAccessToken P (ID row) (USERNAME row) (EMAIL row) now;
                  refresh = generateRefreshToken P (ID row) now;
                  expiresAt = setDate_plus P now 7
              in case executeQuery now (insertTokenSql (ID row) refresh expiresAt) s1 of
                   (Inl err, s2) \<Rightarrow> (Inl err, s2)
                 | (Inr _, s2) \<Rightarrow>
                     (Inr \<lparr>accessToken = access,
                           user = \<lparr>id' = ID row, username = USERNAME row, email = EMAIL row\<rparr>,
                           refreshToken = refresh\<rparr>, s2))))"

text \<open>
  The token argument is \<open>None\<close> for \<open>undefined\<close> or \<open>null\<close>. JavaScript's \<open>!refreshToken\<close>
  also holds for the empty string.
\<close>

definition falsy :: "string option \<Rightarrow> bool" where
  "falsy a \<longleftrightarrow> (case a of None \<Rightarrow> True | Some t \<Rightarrow> t = [])"

definition refreshAccessToken ::
  "prims \<Rightarrow> time \<Rightarrow> string option \<Rightarrow> state \<Rightarrow> (error + refresh_result) \<times> state" where
  "refreshAccessToken P now a s =
     (case a of
        None \<Rightarrow> (Inl MissingToken, s)
      | Some t \<Rightarrow>
          if t = [] then (Inl MissingToken, s)
          else if \<not> verifyRefreshToken P t now then (Inl InvalidOrExpiredToken, s)
          else
            (case executeQuery now (checkTokenSql t) s of
               (Inl err, s1) \<Rightarrow> (Inl err, s1)
             | (Inr [], s1) \<Rightarrow> (Inl InvalidOrExpiredToken, s1)
             | (Inr (tokenData # _), s1) \<Rightarrow>
                 (Inr \<lparr>accessToken =
                         generateAccessToken P (ID tokenData) (USERNAME tokenData) (EMAIL tokenData) now,
                       user = \<lparr>id' = ID tokenData, username = USERNAME tokenData,
                               email = EMAIL tokenData\<rparr>\<rparr>, s1)))"

definition logoutUser :: "time \<Rightarrow> string option \<Rightarrow> state \<Rightarrow> (error + unit) \<times> state" where
  "logoutUser now a s =
     (case a of
        None \<Rightarrow> (Inr (), s)
      | Some t \<Rightarrow>
          if t = [] then (Inr (), s)
          else (case executeQuery now (revokeSql t) s of
                  (Inl err, s1) \<Rightarrow> (Inl err, s1)
                | (Inr _, s1) \<Rightarrow> (Inr (), s1)))"

definition getUserById :: "time \<Rightarrow> nat \<Rightarrow> state \<Rightarrow> (error + user_details) \<times> state" where
  "getUserById now uid s =
     (case executeQuery now (getUserByIdSql uid) s of
        (Inl err, s1) \<Rightarrow> (Inl err, s1)
      | (Inr [], s1) \<Rightarrow> (Inl UserNotFound, s1)
      | (Inr (row # _), s1) \<Rightarrow>
          (Inr \<lparr>id' = ID row, username = USERNAME row, email = EMAIL row,
                createdAt = CREATED_AT row, updatedAt = UPDATED_AT row\<rparr>, s1))"

section \<open>Sequences of calls\<close>

datatype call =
    Register string string string string
  | Login string string
  | Refresh "string option"
  | Logout "string option"
  | GetUserById nat

fun perform :: "prims \<Rightarrow> time \<Rightarrow> call \<Rightarrow> state \<Rightarrow> state" where
  "perform P now (Register u e password salt) s = snd (registerUser P now u e password salt s)"
| "perform P now (Login u password) s = snd (loginUser P now u password s)"
| "perform P now (Refresh a) s = snd (refreshAccessToken P now a s)"
| "perform P now (Logout a) s = snd (logoutUser now a s)"
| "perform P now (GetUserById uid) s = snd (getUserById now uid s)"

fun run :: "prims \<Rightarrow> (time \<times> call) list \<Rightarrow> state \<Rightarrow> state" where
  "run P [] s = s"
| "run P ((now, c) # cs) s = run P cs (perform P now c s)"

definition healthy :: "state \<Rightarrow> bool" where
  "healthy s \<longleftrightarrow> True \<notin> set (faults s)"

text \<open>
  The state of a process that starts on an empty database: \<open>rank\<close> is the store's order
  of rows, \<open>fs\<close> the faults to come.
\<close>

definition fresh :: "(stmt \<Rightarrow> user_row \<Rightarrow> nat) \<Rightarrow> bool list \<Rightarrow> state" where
  "fresh rank fs =
     \<lparr>db = \<lparr>users = [], tokens = [], next_id = 1, row_rank = rank\<rparr>,
      pool = False, in_use = 0, faults = fs, trace = []\<rparr>"

section \<open>Predicates used in the statements\<close>

text \<open>
  In \<open>executeTransaction\<close>: the connection was obtained and \<open>beginTransaction\<close> returned;
  \<open>begun s\<close> is the state the callback is then called in.
\<close>

definition started :: "state \<Rightarrow> bool" where
  "started s \<longleftrightarrow>
     fst (getConnection s) = Inr () \<and> fst (beginTransaction (snd (getConnection s))) = Inr ()"

definition begun :: "state \<Rightarrow> state" where
  "begun s = snd (beginTransaction (snd (getConnection s)))"

text \<open>
  The constraints of the schema, as a predicate on the database: primary key, the three
  unique columns, the foreign key, and ids handed out below \<open>next_id\<close>.
\<close>

definition schema_ok :: "database \<Rightarrow> bool" where
  "schema_ok d \<longleftrightarrow>
     distinct (map ID (users d)) \<and> distinct (map USERNAME (users d)) \<and>
     distinct (map EMAIL (users d)) \<and> distinct (map TOKEN (tokens d)) \<and>
     USER_ID ` set (tokens d) \<subseteq> ID ` set (users d) \<and>
     list_all (\<lambda>u. ID u < next_id d) (users d)"

text \<open>
  A token row is kept when it is the same row, or the same row with the revoked flag set.
  A token table is kept when no row has gone and every old row, at its old position, is
  kept.
\<close>

definition kept :: "token_row \<Rightarrow> token_row \<Rightarrow> bool" where
  "kept r r' \<longleftrightarrow> r' = r \<or> r' = r\<lparr>IS_REVOKED := True\<rparr>"

definition tokens_kept :: "token_row list \<Rightarrow> token_row list \<Rightarrow> bool" where
  "tokens_kept ts ts' \<longleftrightarrow> length ts \<le> length ts' \<and> list_all2 kept ts (take (length ts) ts')"

text \<open>
  \<open>evolves A d d'\<close>: the database \<open>d'\<close> comes from \<open>d\<close> by running statements that all
  satisfy \<open>A\<close>.
\<close>

inductive evolves :: "(stmt \<Rightarrow> bool) \<Rightarrow> database \<Rightarrow> database \<Rightarrow> bool" for A where
  evolves_refl: "evolves A d d"
| evolves_step: "evolves A d d' \<Longrightarrow> A q \<Longrightarrow> evolves A d (snd (run_sql now q d'))"

text \<open>The statements a call may send: a \<open>revokeSql t\<close> is only sent by \<open>logout(t)\<close>.\<close>

definition sent_by :: "call \<Rightarrow> stmt \<Rightarrow> bool" where
  "sent_by c q \<longleftrightarrow> (case q of revokeSql t \<Rightarrow> c = Logout (Some t) | _ \<Rightarrow> True)"

text \<open>
  A small instance of the primitives, to run the model on examples: the hash is the salt
  followed by the password, a refresh token is \<open>R\<close>, the user id in unary, a dot and
  the time of issue in unary; its signature check passes for every token that starts
  with \<open>R\<close>, at every time; the process runs in a zone without clock changes.
\<close>

definition toy :: prims where
  "toy = \<lparr>bcrypt_hash = (\<lambda>password rounds salt. salt @ password),
          bcrypt_compare = (\<lambda>password h. drop 2 h = password),
          generateAccessToken = (\<lambda>uid u e now. ''A'' @ u),
          generateRefreshToken = (\<lambda>uid now. ''R'' @ replicate uid (CHR ''i'') @ ''.'' @ replicate now (CHR ''t'')),
          verifyRefreshToken = (\<lambda>t now. take 1 t = ''R''),
          setDate_plus = (\<lambda>t n. t + n * 86400000)\<rparr>"

text \<open>
  The same in a zone whose clock is set back one hour within the seven days after the
  login: the same wall-clock time seven days later is one hour further away.
\<close>

definition toy_clock_change :: prims where
  "toy_clock_change = toy\<lparr>setDate_plus := (\<lambda>t n. t + n * 86400000 + 3600000)\<rparr>"

text \<open>
  Two orders a store may return rows in: by primary key, and, for the existence check of
  register, the rows found through the user name before the others.
\<close>

definition by_id :: "stmt \<Rightarrow> user_row \<Rightarrow> nat" where
  "by_id q r = ID r"

definition username_first :: "stmt \<Rightarrow> user_row \<Rightarrow> nat" where
  "username_first q r =
     (case q of checkUserSql u e \<Rightarrow> (if USERNAME r = u then 0 else 1) | _ \<Rightarrow> ID r)"

text \<open>Example states, reached from the empty store by calls of the service.\<close>

definition registered :: state where
  "registered = run toy [(1, Register ''alice'' ''a@x.com'' ''pw1'' ''s1'')] (fresh by_id [])"

definition logged_in :: state where
  "logged_in = run toy [(2, Login ''alice'' ''pw1'')] registered"

definition logged_out :: state where
  "logged_out = run toy [(3, Logout (Some ''Ri.tt''))] logged_in"

definition two_users :: "(stmt \<Rightarrow> user_row \<Rightarrow> nat) \<Rightarrow> state" where
  "two_users rank = run toy [(1, Register ''bob'' ''e@x.com'' ''pw'' ''s1''),
                             (2, Register ''u'' ''x@x.com'' ''pw'' ''s2'')] (fresh rank [])"

section \<open>Properties of the connection layer\<close>

lemma healthy_update [simp]:
  "healthy (s\<lparr>trace := tr\<rparr>) = healthy s"
  "healthy (s\<lparr>pool := p\<rparr>) = healthy s"
  "healthy (s\<lparr>in_use := n\<rparr>) = healthy s"
  "healthy (s\<lparr>db := d\<rparr>) = healthy s"
  by (simp_all add: healthy_def)

lemma next_fault_proj [simp]:
  "db (snd (next_fault s)) = db s"
  "pool (snd (next_fault s)) = pool s"
  "in_use (snd (next_fault s)) = in_use s"
  "trace (snd (next_fault s)) = trace s"
  by (simp_all add: next_fault_def split: list.splits)

lemma next_fault_healthy [simp]:
  "healthy s \<Longrightarrow> healthy (snd (next_fault s))"
  "healthy s \<Longrightarrow> \<not> fst (next_fault s)"
  by (auto simp: next_fault_def healthy_def split: list.splits)

lemma getConnection_db [simp]: "db (snd (getConnection s)) = db s"
  by (simp add: getConnection_def initializePool_def pool_getConnection_def case_prod_unfold
           split: bool.splits)

lemma getConnection_healthy [simp]:
  "healthy s \<Longrightarrow> healthy (snd (getConnection s))"
  "healthy s \<Longrightarrow> fst (getConnection s) = Inr ()"
  by (simp_all add: getConnection_def initializePool_def pool_getConnection_def case_prod_unfold
           split: bool.splits)

lemma getConnection_in_use:
  "in_use (snd (getConnection s)) = (if fst (getConnection s) = Inr () then Suc (in_use s) else in_use s)"
  by (simp add: getConnection_def initializePool_def pool_getConnection_def case_prod_unfold
           split: bool.splits)

lemma getConnection_trace:
  "trace (snd (getConnection s)) = (if fst (getConnection s) = Inr () then trace s @ [Acquired] else trace s)"
  by (simp add: getConnection_def initializePool_def pool_getConnection_def case_prod_unfold
           split: bool.splits)

lemma getConnection_error: "fst (getConnection s) = Inl e \<Longrightarrow> e = StoreFault"
  by (auto simp add: getConnection_def initializePool_def pool_getConnection_def case_prod_unfold
           split: bool.splits if_splits)

lemma execute_proj [simp]:
  "in_use (snd (execute now sql s)) = in_use s"
  "trace (snd (execute now sql s)) = trace s @ [Execute sql]"
  by (simp_all add: execute_def case_prod_unfold split: bool.splits)

lemma execute_healthy [simp]:
  "healthy s \<Longrightarrow> healthy (snd (execute now sql s))"
  "healthy s \<Longrightarrow> fst (execute now sql s) = fst (run_sql now sql (db s))"
  "healthy s \<Longrightarrow> db (snd (execute now sql s)) = snd (run_sql now sql (db s))"
  by (simp_all add: execute_def case_prod_unfold split: bool.splits)

lemma execute_cases:
  "(fst (execute now sql s) = fst (run_sql now sql (db s)) \<and>
    db (snd (execute now sql s)) = snd (run_sql now sql (db s)))
   \<or> (fst (execute now sql s) = Inl StoreFault \<and> db (snd (execute now sql s)) = db s)"
  by (simp add: execute_def case_prod_unfold split: bool.splits)

lemma executeQuery_in_use: "in_use (snd (executeQuery now sql s)) = in_use s"
  by (simp add: executeQuery_def release_def case_prod_unfold getConnection_in_use
           split: sum.splits)

lemma executeQuery_healthy [simp]:
  "healthy s \<Longrightarrow> healthy (snd (executeQuery now sql s))"
  "healthy s \<Longrightarrow> fst (executeQuery now sql s) = fst (run_sql now sql (db s))"
  "healthy s \<Longrightarrow> db (snd (executeQuery now sql s)) = snd (run_sql now sql (db s))"
  "healthy s \<Longrightarrow> trace (snd (executeQuery now sql s)) = trace s @ [Acquired, Execute sql, Released]"
  by (simp_all add: executeQuery_def release_def case_prod_unfold getConnection_trace split: sum.splits)

lemma executeQuery_cases:
  "(fst (executeQuery now sql s) = fst (run_sql now sql (db s)) \<and>
    db (snd (executeQuery now sql s)) = snd (run_sql now sql (db s)) \<and>
    trace (snd (executeQuery now sql s)) = trace s @ [Acquired, Execute sql, Released])
   \<or> (fst (executeQuery now sql s) = Inl StoreFault \<and> db (snd (executeQuery now sql s)) = db s)"
  using execute_cases [of now sql "snd (getConnection s)"]
  by (auto simp: executeQuery_def release_def case_prod_unfold getConnection_trace
           split: sum.splits dest: getConnection_error)

lemma beginTransaction_proj [simp]:
  "in_use (snd (beginTransaction s)) = in_use s"
  "trace (snd (beginTransaction s)) = trace s @ [BeginTransaction]"
  by (simp_all add: beginTransaction_def case_prod_unfold split: bool.splits)

lemma commit_proj [simp]:
  "in_use (snd (commit s)) = in_use s"
  "trace (snd (commit s)) = trace s @ [Commit]"
  by (simp_all add: commit_def case_prod_unfold split: bool.splits)

lemma rollback_proj [simp]:
  "in_use (snd (rollback s)) = in_use s"
  "trace (snd (rollback s)) = trace s @ [Rollback]"
  by (simp_all add: rollback_def case_prod_unfold split: bool.splits)

lemma commit_result: "fst (commit s) = Inr () \<or> fst (commit s) = Inl StoreFault"
  by (simp add: commit_def case_prod_unfold split: bool.splits)

lemma rollback_result: "fst (rollback s) = Inr () \<or> fst (rollback s) = Inl StoreFault"
  by (simp add: rollback_def case_prod_unfold split: bool.splits)

lemma executeQuery_last:
  "fst (getConnection s) = Inr () \<Longrightarrow> last (trace (snd (executeQuery now sql s))) = Released"
  by (simp add: executeQuery_def release_def case_prod_unfold)

lemma executeTransaction_last:
  "fst (getConnection s) = Inr () \<Longrightarrow>
     last (trace (snd (executeTransaction callback s))) = Released"
  by (simp add: executeTransaction_def release_def case_prod_unfold split: sum.splits)

lemma executeTransaction_in_use:
  assumes "\<forall>x. in_use (snd (callback x)) = in_use x"
  shows "in_use (snd (executeTransaction callback s)) = in_use s"
  using assms
  by (simp add: executeTransaction_def transaction_body_def release_def case_prod_unfold
        getConnection_in_use split: sum.splits)

lemma executeTransaction_trace:
  assumes "started s"
  shows "case callback (begun s) of
           (Inr _, s3) \<Rightarrow>
             (if fst (commit s3) = Inr ()
              then fst (executeTransaction callback s) = Inr () \<and>
                   trace (snd (executeTransaction callback s)) = trace s3 @ [Commit, Released]
              else fst (executeTransaction callback s) = Inl StoreFault \<and>
                   trace (snd (executeTransaction callback s)) = trace s3 @ [Commit, Rollback, Released])
         | (Inl e, s3) \<Rightarrow>
             fst (executeTransaction callback s) =
               Inl (if fst (rollback s3) = Inr () then e else StoreFault) \<and>
             trace (snd (executeTransaction callback s)) = trace s3 @ [Rollback, Released]"
  using assms commit_result [of "snd (callback (begun s))"]
    rollback_result [of "snd (callback (begun s))"]
    rollback_result [of "snd (commit (snd (callback (begun s))))"]
  by (auto simp: started_def begun_def executeTransaction_def transaction_body_def release_def
        case_prod_unfold split: sum.splits)

text \<open>
  Claim C9. \<open>executeQuery\<close> gives back the connection it obtained on every exit path:
  the number of connections checked out is the same after the call as before, whether
  the statement returned or threw, and when a connection was obtained the last call made
  is its release. \<open>executeTransaction\<close> ends with the release too whenever it obtained
  a connection, and the number of connections checked out is unchanged for a callback
  that leaves the pool alone; once the transaction has begun, a callback that returns is followed by
  \<open>commit\<close> and the release (with a rollback in between when \<open>commit\<close> itself throws),
  and a callback that throws is followed by \<open>rollback\<close> and the release, the error being
  passed on.
\<close>

theorem connection_released:
  "in_use (snd (executeQuery now sql s)) = in_use s \<and>
   (fst (getConnection s) = Inr () \<longrightarrow> last (trace (snd (executeQuery now sql s))) = Released) \<and>
   ((\<forall>x. in_use (snd (callback x)) = in_use x) \<longrightarrow>
      in_use (snd (executeTransaction callback s)) = in_use s) \<and>
   (fst (getConnection s) = Inr () \<longrightarrow>
      last (trace (snd (executeTransaction callback s))) = Released) \<and>
   (started s \<longrightarrow>
      (case callback (begun s) of
         (Inr _, s3) \<Rightarrow>
           (if fst (commit s3) = Inr ()
            then fst (executeTransaction callback s) = Inr () \<and>
                 trace (snd (executeTransaction callback s)) = trace s3 @ [Commit, Released]
            else fst (executeTransaction callback s) = Inl StoreFault \<and>
                 trace (snd (executeTransaction callback s)) =
                   trace s3 @ [Commit, Rollback, Released])
       | (Inl e, s3) \<Rightarrow>
           fst (executeTransaction callback s) =
             Inl (if fst (rollback s3) = Inr () then e else StoreFault) \<and>
           trace (snd (executeTransaction callback s)) = trace s3 @ [Rollback, Released]))"
proof (intro conjI impI)
  show "in_use (snd (executeQuery now sql s)) = in_use s"
    by (rule executeQuery_in_use)
next
  assume "fst (getConnection s) = Inr ()"
  then show "last (trace (snd (executeQuery now sql s))) = Released"
    by (rule executeQuery_last)
next
  assume "\<forall>x. in_use (snd (callback x)) = in_use x"
  then show "in_use (snd (executeTransaction callback s)) = in_use s"
    by (rule executeTransaction_in_use)
next
  assume "fst (getConnection s) = Inr ()"
  then show "last (trace (snd (executeTransaction callback s))) = Released"
    by (rule executeTransaction_last)
next
  assume "started s"
  then show "case callback (begun s) of
         (Inr _, s3) \<Rightarrow>
           (if fst (commit s3) = Inr ()
            then fst (executeTransaction callback s) = Inr () \<and>
                 trace (snd (executeTransaction callback s)) = trace s3 @ [Commit, Released]
            else fst (executeTransaction callback s) = Inl StoreFault \<and>
                 trace (snd (executeTransaction callback s)) =
                   trace s3 @ [Commit, Rollback, Released])
       | (Inl e, s3) \<Rightarrow>
           fst (executeTransaction callback s) =
             Inl (if fst (rollback s3) = Inr () then e else StoreFault) \<and>
           trace (snd (executeTransaction callback s)) = trace s3 @ [Rollback, Released]"
    by (rule executeTransaction_trace)
qed

text \<open>Unfolding the connection layer on a concrete state.\<close>

lemmas conn_eval =
  fresh_def started_def begun_def getConnection_def initializePool_def pool_getConnection_def
  next_fault_def beginTransaction_def rollback_def commit_def executeTransaction_def
  transaction_body_def release_def executeQuery_def execute_def

theorem connection_released_witness:
  "fst (getConnection (fresh by_id [False, False, True])) = Inr () \<and>
   fst (executeQuery 0 (getUserSql ''alice'') (fresh by_id [False, False, True])) = Inl StoreFault \<and>
   in_use (snd (executeQuery 0 (getUserSql ''alice'') (fresh by_id [False, False, True]))) = 0 \<and>
   last (trace (snd (executeQuery 0 (getUserSql ''alice'') (fresh by_id [False, False, True])))) = Released \<and>
   (\<forall>x. in_use (snd ((\<lambda>y. (Inl (Error ''boom'') :: error + unit, y)) x)) = in_use x) \<and>
   started (fresh by_id []) \<and>
   in_use (snd (executeTransaction (\<lambda>y. (Inl (Error ''boom'') :: error + unit, y)) (fresh by_id []))) = 0 \<and>
   fst (executeTransaction (\<lambda>y. (Inl (Error ''boom'') :: error + unit, y)) (fresh by_id [])) =
     Inl (Error ''boom'') \<and>
   trace (snd (executeTransaction (\<lambda>y. (Inl (Error ''boom'') :: error + unit, y)) (fresh by_id []))) =
     [Acquired, BeginTransaction, Rollback, Released]"
  using connection_released [of 0 "getUserSql ''alice''" "fresh by_id [False, False, True]"
          "\<lambda>y. (Inl (Error ''boom'') :: error + unit, y)"]
        connection_released [of 0 "getUserSql ''alice''" "fresh by_id []"
          "\<lambda>y. (Inl (Error ''boom'') :: error + unit, y)"]
  by (simp add: conn_eval)

section \<open>Properties of the store\<close>

subsection \<open>The store keeps its constraints\<close>

lemma filter_map_revoke:
  "filter (\<lambda>r. TOKEN r = t') (map (revoke t) ts) = map (revoke t) (filter (\<lambda>r. TOKEN r = t') ts)"
  by (induction ts) (auto simp: revoke_def)

lemma revoke_proj [simp]:
  "TOKEN (revoke t r) = TOKEN r" "USER_ID (revoke t r) = USER_ID r"
  "EXPIRES_AT (revoke t r) = EXPIRES_AT r"
  by (simp_all add: revoke_def)

lemma run_sql_schema_ok: "schema_ok d \<Longrightarrow> schema_ok (snd (run_sql now q d))"
proof (cases q)
  case (insertUserSql u e h)
  then show "schema_ok d \<Longrightarrow> schema_ok (snd (run_sql now q d))"
    by (auto simp: schema_ok_def user_insertable_def list_all_iff less_Suc_eq)
next
  case (insertTokenSql uid t ex)
  then show "schema_ok d \<Longrightarrow> schema_ok (snd (run_sql now q d))"
    by (auto simp: schema_ok_def token_insertable_def)
next
  case (revokeSql t)
  then show "schema_ok d \<Longrightarrow> schema_ok (snd (run_sql now q d))"
    by (auto simp: schema_ok_def comp_def image_image)
qed (simp_all add: schema_ok_def)

lemma evolves_schema_ok: "evolves A d d' \<Longrightarrow> schema_ok d \<Longrightarrow> schema_ok d'"
  by (induction rule: evolves.induct) (auto intro: run_sql_schema_ok)

lemma evolves_trans: "evolves A d2 d3 \<Longrightarrow> evolves A d1 d2 \<Longrightarrow> evolves A d1 d3"
  by (induction rule: evolves.induct) (auto intro: evolves.intros)

lemma evolves_mono: "evolves A d d' \<Longrightarrow> (\<And>q. A q \<Longrightarrow> B q) \<Longrightarrow> evolves B d d'"
  by (induction rule: evolves.induct) (auto intro: evolves.intros)

subsection \<open>Token rows are kept\<close>

lemma kept_refl [simp]: "kept r r"
  by (simp add: kept_def)

lemma kept_trans: "kept a b \<Longrightarrow> kept b c \<Longrightarrow> kept a c"
  by (auto simp: kept_def)

lemma kept_revoke [simp]: "kept r (revoke t r)"
  by (simp add: kept_def revoke_def)

lemma tokens_kept_refl [simp]: "tokens_kept ts ts"
  by (simp add: tokens_kept_def list_all2_same)

lemma tokens_kept_nth:
  "tokens_kept ts ts' \<longleftrightarrow> length ts \<le> length ts' \<and> (\<forall>i<length ts. kept (ts ! i) (ts' ! i))"
  by (auto simp: tokens_kept_def list_all2_conv_all_nth)

lemma tokens_kept_trans: "tokens_kept a b \<Longrightarrow> tokens_kept b c \<Longrightarrow> tokens_kept a c"
  unfolding tokens_kept_nth
  by (meson kept_trans le_trans less_le_trans)

lemma run_sql_tokens_kept: "tokens_kept (tokens d) (tokens (snd (run_sql now q d)))"
  by (cases q) (auto simp: tokens_kept_nth nth_append)

lemma evolves_tokens_kept: "evolves A d d' \<Longrightarrow> tokens_kept (tokens d) (tokens d')"
  by (induction rule: evolves.induct) (auto intro: tokens_kept_trans run_sql_tokens_kept)

section \<open>Properties of the service\<close>

subsection \<open>What the operations do to the database\<close>

lemma executeQuery_evolves:
  assumes "A q" and "evolves A d (db s)"
  shows "evolves A d (db (snd (executeQuery now q s)))"
  using executeQuery_cases [of now q s] assms
  by (auto intro: evolves.intros)

lemma registerUser_evolves:
  "evolves (sent_by c) (db s) (db (snd (registerUser P now u e password salt s)))"
  by (auto simp: registerUser_def case_prod_unfold Let_def sent_by_def
        split: sum.splits option.splits list.splits
        intro!: executeQuery_evolves evolves_refl)

lemma loginUser_evolves:
  "evolves (sent_by c) (db s) (db (snd (loginUser P now u password s)))"
  by (auto simp: loginUser_def case_prod_unfold Let_def sent_by_def
        split: sum.splits option.splits list.splits
        intro!: executeQuery_evolves evolves_refl)

lemma refreshAccessToken_evolves:
  "evolves (sent_by c) (db s) (db (snd (refreshAccessToken P now a s)))"
  by (auto simp: refreshAccessToken_def case_prod_unfold Let_def sent_by_def
        split: sum.splits option.splits list.splits
        intro!: executeQuery_evolves evolves_refl)

lemma logoutUser_evolves:
  "evolves (sent_by (Logout a)) (db s) (db (snd (logoutUser now a s)))"
  by (auto simp: logoutUser_def case_prod_unfold Let_def sent_by_def
        split: sum.splits option.splits list.splits
        intro!: executeQuery_evolves evolves_refl)

lemma getUserById_evolves:
  "evolves (sent_by c) (db s) (db (snd (getUserById now uid s)))"
  by (auto simp: getUserById_def case_prod_unfold Let_def sent_by_def
        split: sum.splits option.splits list.splits
        intro!: executeQuery_evolves evolves_refl)

lemma perform_evolves: "evolves (sent_by c) (db s) (db (perform P now c s))"
  by (cases c)
     (simp_all add: registerUser_evolves loginUser_evolves refreshAccessToken_evolves
        logoutUser_evolves getUserById_evolves)

lemma run_evolves:
  "(\<And>now c q. (now, c) \<in> set cs \<Longrightarrow> sent_by c q \<Longrightarrow> A q) \<Longrightarrow> evolves A (db s) (db (run P cs s))"
proof (induction cs arbitrary: s)
  case Nil
  show ?case by (simp add: evolves_refl)
next
  case (Cons x cs)
  obtain now c where x: "x = (now, c)" by (cases x)
  have first: "evolves A (db s) (db (perform P now c s))"
    using perform_evolves [of c s P now] Cons.prems [of now c] x
    by (auto intro: evolves_mono)
  have rest: "evolves A (db (perform P now c s)) (db (run P cs (perform P now c s)))"
    using Cons.prems by (intro Cons.IH) auto
  show ?case using evolves_trans [OF rest first] x by simp
qed

lemma run_schema_ok: "schema_ok (db s) \<Longrightarrow> schema_ok (db (run P cs s))"
  using run_evolves [of cs "\<lambda>q. True" s P] by (auto dest: evolves_schema_ok)

lemma fresh_schema_ok: "schema_ok (db (fresh rank fs))"
  by (simp add: fresh_def schema_ok_def)

lemma reachable_schema_ok: "schema_ok (db (run P cs (fresh rank fs)))"
  by (intro run_schema_ok fresh_schema_ok)

text \<open>
  Claim C8. Whatever sequence of register, login, refresh, logout and getUserById calls
  is made, with or without store faults, no token row goes away and no row changes
  except that its revoked flag may be set: every row of the table before is still at
  its position after, the same or with the flag set, and a row that was revoked is
  exactly the same row after.
\<close>

theorem revoked_is_terminal:
  "length (tokens (db s)) \<le> length (tokens (db (run P cs s))) \<and>
   (\<forall>i<length (tokens (db s)).
      kept (tokens (db s) ! i) (tokens (db (run P cs s)) ! i) \<and>
      (IS_REVOKED (tokens (db s) ! i) \<longrightarrow> tokens (db (run P cs s)) ! i = tokens (db s) ! i))"
proof -
  have "evolves (\<lambda>q. True) (db s) (db (run P cs s))"
    by (rule run_evolves) simp
  then have "tokens_kept (tokens (db s)) (tokens (db (run P cs s)))"
    by (rule evolves_tokens_kept)
  then show ?thesis
    by (auto simp: tokens_kept_nth kept_def)
qed

lemma replicate_numeral: "replicate (numeral v) x = x # replicate (numeral v - 1) x"
  by (simp add: numeral_eq_Suc)

lemmas auth_eval =
  toy_def toy_clock_change_def registerUser_def loginUser_def refreshAccessToken_def logoutUser_def getUserById_def
  duplicate_error_def matching_users_def user_insertable_def token_insertable_def
  check_token_def in_store_order_def by_id_def active_token_def revoke_def SALT_ROUNDS_def Let_def
  replicate_numeral healthy_def falsy_def
  DuplicateUsername_def DuplicateEmail_def CreationFailed_def InvalidCredentials_def
  MissingToken_def InvalidOrExpiredToken_def UserNotFound_def

theorem revoked_is_terminal_witness:
  "(0::nat) < length (tokens (db (run toy [(1, Register ''alice'' ''a@x.com'' ''pw1'' ''s1''),
        (2, Login ''alice'' ''pw1''), (3, Logout (Some ''Ri.tt''))] (fresh by_id [])))) \<and>
   IS_REVOKED (tokens (db (run toy [(1, Register ''alice'' ''a@x.com'' ''pw1'' ''s1''),
        (2, Login ''alice'' ''pw1''), (3, Logout (Some ''Ri.tt''))] (fresh by_id []))) ! 0) \<and>
   tokens (db (run toy [(4, Login ''alice'' ''pw1''), (5, Refresh (Some ''Ri.tt'')),
                         (6, Logout (Some ''Ri.tt'')), (7, GetUserById 1)]
     (run toy [(1, Register ''alice'' ''a@x.com'' ''pw1'' ''s1''),
        (2, Login ''alice'' ''pw1''), (3, Logout (Some ''Ri.tt''))] (fresh by_id [])))) ! 0 =
   \<lparr>USER_ID = 1, TOKEN = ''Ri.tt'', EXPIRES_AT = 604800002, RT_CREATED_AT = 2, IS_REVOKED = True\<rparr>"
  using revoked_is_terminal [of
     "run toy [(1, Register ''alice'' ''a@x.com'' ''pw1'' ''s1''),
        (2, Login ''alice'' ''pw1''), (3, Logout (Some ''Ri.tt''))] (fresh by_id [])"
     toy "[(4, Login ''alice'' ''pw1''), (5, Refresh (Some ''Ri.tt'')),
                         (6, Logout (Some ''Ri.tt'')), (7, GetUserById 1)]"]
  by (simp add: conn_eval auth_eval)

subsection \<open>The rows of a lookup\<close>

lemma set_matching_users [simp]: "set (matching_users q p d) = {x \<in> set (users d). p x}"
  by (simp add: matching_users_def in_store_order_def)

lemma matching_users_empty: "matching_users q p d = [] \<longleftrightarrow> (\<forall>x\<in>set (users d). \<not> p x)"
proof -
  have "matching_users q p d = [] \<longleftrightarrow> filter p (users d) = []"
    unfolding matching_users_def in_store_order_def
    by (metis length_0_conv length_sort)
  then show ?thesis
    by (simp add: filter_empty_conv)
qed

lemma in_store_order_simps [simp]:
  "in_store_order d q [] = []" "in_store_order d q [x] = [x]"
  by (simp_all add: in_store_order_def)

subsection \<open>The example states\<close>

lemma registered_eq:
  "registered =
     \<lparr>db = \<lparr>users = [\<lparr>ID = 1, USERNAME = ''alice'', EMAIL = ''a@x.com'', PASSWORD_HASH = ''s1pw1'',
                         CREATED_AT = 1, UPDATED_AT = 1\<rparr>],
             tokens = [], next_id = 2, row_rank = by_id\<rparr>,
       pool = True, in_use = 0, faults = [],
       trace = [Acquired, Execute (checkUserSql ''alice'' ''a@x.com''), Released, BcryptHash,
                Acquired, Execute (insertUserSql ''alice'' ''a@x.com'' ''s1pw1''), Released,
                Acquired, Execute (getUserSql ''alice''), Released]\<rparr>"
  by (simp add: registered_def conn_eval auth_eval)

lemma logged_in_eq:
  "logged_in =
     registered\<lparr>db := (db registered)\<lparr>tokens :=
                   [\<lparr>USER_ID = 1, TOKEN = ''Ri.tt'', EXPIRES_AT = 604800002, RT_CREATED_AT = 2,
                     IS_REVOKED = False\<rparr>]\<rparr>,
                trace := trace registered @
                   [Acquired, Execute (loginUserSql ''alice''), Released,
                    Acquired, Execute (insertTokenSql 1 ''Ri.tt'' 604800002), Released]\<rparr>"
  by (simp add: logged_in_def registered_eq conn_eval auth_eval)

lemma logged_out_eq:
  "logged_out =
     logged_in\<lparr>db := (db logged_in)\<lparr>tokens :=
                   [\<lparr>USER_ID = 1, TOKEN = ''Ri.tt'', EXPIRES_AT = 604800002, RT_CREATED_AT = 2,
                     IS_REVOKED = True\<rparr>]\<rparr>,
                trace := trace logged_in @ [Acquired, Execute (revokeSql ''Ri.tt''), Released]\<rparr>"
  by (simp add: logged_out_def logged_in_eq registered_eq conn_eval auth_eval)

lemma two_users_eq:
  "db (two_users rank) =
     \<lparr>users = [\<lparr>ID = 1, USERNAME = ''bob'', EMAIL = ''e@x.com'', PASSWORD_HASH = ''s1pw'',
                  CREATED_AT = 1, UPDATED_AT = 1\<rparr>,
                \<lparr>ID = 2, USERNAME = ''u'', EMAIL = ''x@x.com'', PASSWORD_HASH = ''s2pw'',
                  CREATED_AT = 2, UPDATED_AT = 2\<rparr>],
       tokens = [], next_id = 3, row_rank = rank\<rparr>"
  "faults (two_users rank) = []"
  by (simp_all add: two_users_def conn_eval auth_eval)

subsection \<open>Login\<close>

lemma executeQuery_Inr:
  assumes "fst (executeQuery now q s) = Inr rows"
  shows "fst (run_sql now q (db s)) = Inr rows \<and>
         db (snd (executeQuery now q s)) = snd (run_sql now q (db s)) \<and>
         trace (snd (executeQuery now q s)) = trace s @ [Acquired, Execute q, Released]"
  using executeQuery_cases [of now q s] assms by auto

text \<open>
  Claim C3. While the store answers, login fails with \<open>InvalidCredentials\<close> when no user
  row has the identifier as its user name or as its e-mail address, and it fails with the
  same \<open>InvalidCredentials\<close> when the first row the lookup returns does not verify the
  password; the database is left as it was in both cases.
\<close>

theorem login_invalid_credentials:
  assumes "healthy s"
  shows "((\<forall>r\<in>set (users (db s)). USERNAME r \<noteq> u \<and> EMAIL r \<noteq> u) \<longrightarrow>
            fst (loginUser P now u password s) = Inl InvalidCredentials \<and>
            db (snd (loginUser P now u password s)) = db s) \<and>
         (\<forall>row rest.
            matching_users (loginUserSql u) (\<lambda>r. USERNAME r = u \<or> EMAIL r = u) (db s) = row # rest \<and>
            \<not> bcrypt_compare P password (PASSWORD_HASH row) \<longrightarrow>
            fst (loginUser P now u password s) = Inl InvalidCredentials \<and>
            db (snd (loginUser P now u password s)) = db s)"
  using assms
proof (intro conjI allI impI)
  assume "\<forall>r\<in>set (users (db s)). USERNAME r \<noteq> u \<and> EMAIL r \<noteq> u"
  then have none: "matching_users (loginUserSql u) (\<lambda>r. USERNAME r = u \<or> EMAIL r = u) (db s) = []"
    by (simp add: matching_users_empty)
  with assms show "fst (loginUser P now u password s) = Inl InvalidCredentials"
    by (simp add: loginUser_def case_prod_unfold)
  from assms none show "db (snd (loginUser P now u password s)) = db s"
    by (simp add: loginUser_def case_prod_unfold)
next
  fix row rest
  assume a: "matching_users (loginUserSql u) (\<lambda>r. USERNAME r = u \<or> EMAIL r = u) (db s) = row # rest \<and>
            \<not> bcrypt_compare P password (PASSWORD_HASH row)"
  with assms show "fst (loginUser P now u password s) = Inl InvalidCredentials"
    by (simp add: loginUser_def case_prod_unfold)
  from assms a show "db (snd (loginUser P now u password s)) = db s"
    by (simp add: loginUser_def case_prod_unfold)
qed

theorem login_invalid_credentials_witness:
  "healthy registered \<and>
   list_all (\<lambda>r. USERNAME r \<noteq> ''nouser'' \<and> EMAIL r \<noteq> ''nouser'') (users (db registered)) \<and>
   fst (loginUser toy 2 ''nouser'' ''x'' registered) = Inl InvalidCredentials \<and>
   matching_users (loginUserSql ''alice'') (\<lambda>r. USERNAME r = ''alice'' \<or> EMAIL r = ''alice'')
     (db registered) =
     [\<lparr>ID = 1, USERNAME = ''alice'', EMAIL = ''a@x.com'', PASSWORD_HASH = ''s1pw1'',
       CREATED_AT = 1, UPDATED_AT = 1\<rparr>] \<and>
   \<not> bcrypt_compare toy ''wrongpass'' ''s1pw1'' \<and>
   fst (loginUser toy 2 ''alice'' ''wrongpass'' registered) = Inl InvalidCredentials"
  using login_invalid_credentials [of registered "''nouser''" toy 2 "''x''"]
        login_invalid_credentials [of registered "''alice''" toy 2 "''wrongpass''"]
  by (simp add: registered_eq auth_eval)

lemma loginUser_Inr:
  assumes "loginUser P now u password s = (Inr r, s')"
  shows "\<exists>row rest.
           matching_users (loginUserSql u) (\<lambda>x. USERNAME x = u \<or> EMAIL x = u) (db s) = row # rest \<and>
           bcrypt_compare P password (PASSWORD_HASH row) \<and>
           r = \<lparr>accessToken = generateAccessToken P (ID row) (USERNAME row) (EMAIL row) now,
                 user = \<lparr>id' = ID row, username = USERNAME row, email = EMAIL row\<rparr>,
                 refreshToken = generateRefreshToken P (ID row) now\<rparr> \<and>
           users (db s') = users (db s) \<and>
           tokens (db s') = tokens (db s) @
             [\<lparr>USER_ID = ID row, TOKEN = refreshToken r, EXPIRES_AT = setDate_plus P now 7,
               RT_CREATED_AT = now, IS_REVOKED = False\<rparr>] \<and>
           refreshToken r \<notin> TOKEN ` set (tokens (db s))"
proof -
  let ?q1 = "executeQuery now (loginUserSql u) s"
  obtain rows where q1: "fst ?q1 = Inr rows"
    using assms by (cases "fst ?q1") (auto simp: loginUser_def case_prod_unfold)
  from executeQuery_Inr [OF q1]
  have rows: "rows = matching_users (loginUserSql u) (\<lambda>x. USERNAME x = u \<or> EMAIL x = u) (db s)"
    and db1: "db (snd ?q1) = db s"
    by auto
  obtain row rest where rr: "rows = row # rest"
    using assms q1 by (cases rows) (auto simp: loginUser_def case_prod_unfold)
  have ok: "bcrypt_compare P password (PASSWORD_HASH row)"
    using assms q1 rr by (auto simp: loginUser_def case_prod_unfold split: if_splits)
  let ?t = "generateRefreshToken P (ID row) now"
  let ?q2 = "executeQuery now (insertTokenSql (ID row) ?t (setDate_plus P now 7)) (snd ?q1)"
  obtain x where q2: "fst ?q2 = Inr x"
    using assms q1 rr ok
    by (cases "fst ?q2") (auto simp: loginUser_def case_prod_unfold Let_def)
  have res: "r = \<lparr>accessToken = generateAccessToken P (ID row) (USERNAME row) (EMAIL row) now,
                   user = \<lparr>id' = ID row, username = USERNAME row, email = EMAIL row\<rparr>,
                   refreshToken = ?t\<rparr>" and s': "s' = snd ?q2"
    using assms q1 rr ok q2 by (auto simp: loginUser_def case_prod_unfold Let_def)
  from executeQuery_Inr [OF q2] db1
  have us: "users (db s') = users (db s)"
    and ts: "tokens (db s') = tokens (db s) @
             [\<lparr>USER_ID = ID row, TOKEN = ?t, EXPIRES_AT = setDate_plus P now 7,
               RT_CREATED_AT = now, IS_REVOKED = False\<rparr>]"
    and fresh: "?t \<notin> TOKEN ` set (tokens (db s))"
    unfolding s' by (auto simp: token_insertable_def split: if_splits)
  have m: "matching_users (loginUserSql u) (\<lambda>x. USERNAME x = u \<or> EMAIL x = u) (db s) = row # rest"
    using rows rr by simp
  show ?thesis
    apply (rule exI [of _ row])
    apply (rule exI [of _ rest])
    using m ok res us ts fresh by simp
qed

text \<open>
  Claim C7. A login that succeeds authenticated the first row of the lookup by user name
  or e-mail address; it returns that user's identity, the access token generated from
  the user's id, name and address, and the refresh token generated from the user's id;
  the token table afterwards is the table before with one row added at the end: owner
  the user's id, the returned refresh token, not revoked, and as expiry the instant
  seven calendar days after now, as the runtime's \<open>setDate(getDate() + 7)\<close> gives it in the
  time zone of the process (now plus 7 times 24 hours when the zone's clock does not
  change in between, an hour more or less when it does). The user table is untouched.
\<close>

theorem login_success:
  assumes "loginUser P now u password s = (Inr r, s')"
  shows "\<exists>row rest.
           matching_users (loginUserSql u) (\<lambda>x. USERNAME x = u \<or> EMAIL x = u) (db s) = row # rest \<and>
           bcrypt_compare P password (PASSWORD_HASH row) \<and>
           r = \<lparr>accessToken = generateAccessToken P (ID row) (USERNAME row) (EMAIL row) now,
                 user = \<lparr>id' = ID row, username = USERNAME row, email = EMAIL row\<rparr>,
                 refreshToken = generateRefreshToken P (ID row) now\<rparr> \<and>
           users (db s') = users (db s) \<and>
           tokens (db s') = tokens (db s) @
             [\<lparr>USER_ID = ID row, TOKEN = refreshToken r, EXPIRES_AT = setDate_plus P now 7,
               RT_CREATED_AT = now, IS_REVOKED = False\<rparr>]"
proof -
  from loginUser_Inr [OF assms] obtain row rest where
    "matching_users (loginUserSql u) (\<lambda>x. USERNAME x = u \<or> EMAIL x = u) (db s) = row # rest \<and>
     bcrypt_compare P password (PASSWORD_HASH row) \<and>
     r = \<lparr>accessToken = generateAccessToken P (ID row) (USERNAME row) (EMAIL row) now,
           user = \<lparr>id' = ID row, username = USERNAME row, email = EMAIL row\<rparr>,
           refreshToken = generateRefreshToken P (ID row) now\<rparr> \<and>
     users (db s') = users (db s) \<and>
     tokens (db s') = tokens (db s) @
       [\<lparr>USER_ID = ID row, TOKEN = refreshToken r, EXPIRES_AT = setDate_plus P now 7,
         RT_CREATED_AT = now, IS_REVOKED = False\<rparr>]"
    by blast
  then show ?thesis by blast
qed

theorem login_success_witness:
  "loginUser toy 2 ''alice'' ''pw1'' registered =
     (Inr \<lparr>accessToken = ''Aalice'',
           user = \<lparr>id' = 1, username = ''alice'', email = ''a@x.com''\<rparr>,
           refreshToken = ''Ri.tt''\<rparr>, logged_in) \<and>
   tokens (db registered) = [] \<and>
   tokens (db logged_in) =
     [\<lparr>USER_ID = 1, TOKEN = ''Ri.tt'', EXPIRES_AT = 2 + 7 * 86400000, RT_CREATED_AT = 2,
       IS_REVOKED = False\<rparr>] \<and>
   fst (loginUser toy_clock_change 2 ''alice'' ''pw1'' registered) =
     Inr \<lparr>accessToken = ''Aalice'',
           user = \<lparr>id' = 1, username = ''alice'', email = ''a@x.com''\<rparr>,
           refreshToken = ''Ri.tt''\<rparr> \<and>
   tokens (db (snd (loginUser toy_clock_change 2 ''alice'' ''pw1'' registered))) =
     [\<lparr>USER_ID = 1, TOKEN = ''Ri.tt'', EXPIRES_AT = 2 + 7 * 86400000 + 3600000,
       RT_CREATED_AT = 2, IS_REVOKED = False\<rparr>]"
proof -
  let ?r = "\<lparr>accessToken = ''Aalice'',
            user = \<lparr>id' = 1, username = ''alice'', email = ''a@x.com''\<rparr>,
            refreshToken = ''Ri.tt''\<rparr>"
  have h: "loginUser toy 2 ''alice'' ''pw1'' registered = (Inr ?r, logged_in)"
    by (simp add: logged_in_eq registered_eq conn_eval auth_eval)
  have f: "fst (loginUser toy_clock_change 2 ''alice'' ''pw1'' registered) = Inr ?r"
    by (simp add: registered_eq conn_eval auth_eval)
  then have h': "loginUser toy_clock_change 2 ''alice'' ''pw1'' registered =
      (Inr ?r, snd (loginUser toy_clock_change 2 ''alice'' ''pw1'' registered))"
    by (simp add: prod_eq_iff)
  have e: "setDate_plus toy_clock_change 2 7 = 2 + 7 * 86400000 + 3600000"
    and e0: "setDate_plus toy 2 7 = 2 + 7 * 86400000"
    by (simp_all add: toy_clock_change_def toy_def)
  have t0: "tokens (db registered) = []"
    by (simp add: registered_eq)
  have t1: "tokens (db logged_in) =
     [\<lparr>USER_ID = 1, TOKEN = ''Ri.tt'', EXPIRES_AT = 2 + 7 * 86400000, RT_CREATED_AT = 2,
       IS_REVOKED = False\<rparr>]"
    using login_success [OF h] t0 e0 by auto
  have t2: "tokens (db (snd (loginUser toy_clock_change 2 ''alice'' ''pw1'' registered))) =
     [\<lparr>USER_ID = 1, TOKEN = ''Ri.tt'', EXPIRES_AT = 2 + 7 * 86400000 + 3600000,
       RT_CREATED_AT = 2, IS_REVOKED = False\<rparr>]"
    using login_success [OF h'] t0 e by auto
  show ?thesis
    using h f t0 t1 t2 by simp
qed

subsection \<open>Refresh and logout\<close>

lemma logoutUser_state:
  "t \<noteq> [] \<Longrightarrow> snd (logoutUser now (Some t) s) = snd (executeQuery now (revokeSql t) s)"
  by (simp add: logoutUser_def case_prod_unfold split: sum.splits)

lemma logoutUser_result:
  "t \<noteq> [] \<Longrightarrow> fst (logoutUser now (Some t) s) = Inr () \<Longrightarrow>
     \<exists>x. fst (executeQuery now (revokeSql t) s) = Inr x"
  by (simp add: logoutUser_def case_prod_unfold split: sum.splits)

lemma check_token_empty:
  "\<forall>r\<in>set (tokens d). \<not> active_token now t r \<Longrightarrow> check_token now t d = []"
  by (simp add: check_token_def filter_False)

lemma revoked_inactive: "\<not> active_token now t (revoke t r)"
  by (simp add: active_token_def revoke_def)

lemma logoutUser_revoked:
  assumes "t \<noteq> []" and "fst (logoutUser now (Some t) s) = Inr ()"
  shows "check_token now' t (db (snd (logoutUser now (Some t) s))) = []"
proof -
  let ?q = "executeQuery now (revokeSql t) s"
  obtain x where q: "fst ?q = Inr x"
    using logoutUser_result [OF assms] by blast
  have "db (snd ?q) = snd (run_sql now (revokeSql t) (db s))"
    using executeQuery_Inr [OF q] by blast
  then have "tokens (db (snd ?q)) = map (revoke t) (tokens (db s))"
    by simp
  then have "\<forall>r\<in>set (tokens (db (snd ?q))). \<not> active_token now' t r"
    by (simp add: revoked_inactive)
  then have "check_token now' t (db (snd ?q)) = []"
    by (rule check_token_empty)
  then show ?thesis
    using assms(1) by (simp add: logoutUser_state)
qed

lemma refresh_no_active_row:
  assumes "t \<noteq> []" and "check_token now t (db s) = []"
  shows "fst (refreshAccessToken P now (Some t) s) = Inl InvalidOrExpiredToken \<or>
         fst (refreshAccessToken P now (Some t) s) = Inl StoreFault"
    and "healthy s \<Longrightarrow> fst (refreshAccessToken P now (Some t) s) = Inl InvalidOrExpiredToken"
proof -
  let ?q = "executeQuery now (checkTokenSql t) s"
  show "fst (refreshAccessToken P now (Some t) s) = Inl InvalidOrExpiredToken \<or>
         fst (refreshAccessToken P now (Some t) s) = Inl StoreFault"
  proof (cases "verifyRefreshToken P t now")
    case False
    then show ?thesis using assms by (simp add: refreshAccessToken_def)
  next
    case True
    from executeQuery_cases [of now "checkTokenSql t" s]
    have "fst ?q = Inr [] \<or> fst ?q = Inl StoreFault"
      using assms by auto
    then show ?thesis
      using assms True by (auto simp: refreshAccessToken_def case_prod_unfold)
  qed
  assume "healthy s"
  then have "fst ?q = Inr []"
    using assms by simp
  then show "fst (refreshAccessToken P now (Some t) s) = Inl InvalidOrExpiredToken"
    using assms by (simp add: refreshAccessToken_def case_prod_unfold)
qed

lemma logoutUser_healthy:
  assumes "healthy s"
  shows "fst (logoutUser now a s) = Inr ()" and "healthy (snd (logoutUser now a s))"
  using assms
  by (auto simp: logoutUser_def case_prod_unfold split: option.splits sum.splits)

text \<open>
  Claim C5. Refresh with an absent token (undefined, null or empty: whatever JavaScript's
  \<open>!refreshToken\<close> accepts) fails with \<open>MissingToken\<close> and does nothing else. With a
  token whose signature check fails it fails with \<open>InvalidOrExpiredToken\<close> and the state
  is untouched: no connection was obtained and no statement sent. With a token that
  verifies, the lookup is sent, and when no row of the token is active (not revoked and
  not expired) the call fails with the same \<open>InvalidOrExpiredToken\<close>.
\<close>

theorem refresh_error_order:
  "(falsy a \<longrightarrow> refreshAccessToken P now a s = (Inl MissingToken, s)) \<and>
   (t \<noteq> [] \<and> \<not> verifyRefreshToken P t now \<longrightarrow>
      refreshAccessToken P now (Some t) s = (Inl InvalidOrExpiredToken, s)) \<and>
   (t \<noteq> [] \<and> verifyRefreshToken P t now \<and> healthy s \<and>
    (\<forall>r\<in>set (tokens (db s)). \<not> active_token now t r) \<longrightarrow>
      fst (refreshAccessToken P now (Some t) s) = Inl InvalidOrExpiredToken \<and>
      trace (snd (refreshAccessToken P now (Some t) s)) =
        trace s @ [Acquired, Execute (checkTokenSql t), Released])"
  by (auto simp: refreshAccessToken_def falsy_def case_prod_unfold check_token_empty
        split: option.splits sum.splits list.splits)

theorem refresh_error_order_witness:
  "falsy None \<and> falsy (Some []) \<and>
   refreshAccessToken toy 4 None logged_in = (Inl MissingToken, logged_in) \<and>
   refreshAccessToken toy 4 (Some []) logged_in = (Inl MissingToken, logged_in) \<and>
   ''garbage'' \<noteq> [] \<and> \<not> verifyRefreshToken toy ''garbage'' 4 \<and>
   refreshAccessToken toy 4 (Some ''garbage'') logged_in = (Inl InvalidOrExpiredToken, logged_in) \<and>
   ''Ri.tt'' \<noteq> [] \<and> verifyRefreshToken toy ''Ri.tt'' 4 \<and> healthy logged_out \<and>
   list_all (\<lambda>r. \<not> active_token 4 ''Ri.tt'' r) (tokens (db logged_out)) \<and>
   fst (refreshAccessToken toy 4 (Some ''Ri.tt'') logged_out) = Inl InvalidOrExpiredToken \<and>
   ''Rnever'' \<noteq> [] \<and> verifyRefreshToken toy ''Rnever'' 4 \<and>
   list_all (\<lambda>r. \<not> active_token 4 ''Rnever'' r) (tokens (db logged_in)) \<and>
   fst (refreshAccessToken toy 4 (Some ''Rnever'') logged_in) = Inl InvalidOrExpiredToken"
  using refresh_error_order [of None toy 4 logged_in "''garbage''"]
        refresh_error_order [of "Some []" toy 4 logged_out "''Ri.tt''"]
        refresh_error_order [of None toy 4 logged_in "''Rnever''"]
  by (simp add: logged_out_eq logged_in_eq registered_eq auth_eval)

text \<open>
  Claim C1. Logout with an absent token returns at once and leaves the state as it is.
  While the store answers, logout returns without error for every argument, and so does
  a second logout with the same argument, issued or not. Once \<open>logout(t)\<close> has returned
  for a token \<open>t\<close> (a string that is not empty), \<open>refresh(t)\<close> does not succeed: it fails
  with \<open>InvalidOrExpiredToken\<close>, unless the store faults during the lookup.
\<close>

theorem logout_revokes:
  "(falsy a \<longrightarrow> logoutUser now a s = (Inr (), s)) \<and>
   (healthy s \<longrightarrow>
      fst (logoutUser now a s) = Inr () \<and>
      fst (logoutUser now2 a (snd (logoutUser now a s))) = Inr ()) \<and>
   (t \<noteq> [] \<and> fst (logoutUser now (Some t) s) = Inr () \<longrightarrow>
      (fst (refreshAccessToken P now3 (Some t) (snd (logoutUser now (Some t) s))) =
         Inl InvalidOrExpiredToken \<or>
       fst (refreshAccessToken P now3 (Some t) (snd (logoutUser now (Some t) s))) =
         Inl StoreFault) \<and>
      (healthy (snd (logoutUser now (Some t) s)) \<longrightarrow>
         fst (refreshAccessToken P now3 (Some t) (snd (logoutUser now (Some t) s))) =
           Inl InvalidOrExpiredToken))"
proof (intro conjI impI)
  assume "falsy a"
  then show "logoutUser now a s = (Inr (), s)"
    by (auto simp: logoutUser_def falsy_def split: option.splits)
next
  assume "healthy s"
  then show "fst (logoutUser now a s) = Inr ()"
    by (rule logoutUser_healthy)
next
  assume "healthy s"
  then have "healthy (snd (logoutUser now a s))"
    by (rule logoutUser_healthy)
  then show "fst (logoutUser now2 a (snd (logoutUser now a s))) = Inr ()"
    by (rule logoutUser_healthy)
next
  assume a: "t \<noteq> [] \<and> fst (logoutUser now (Some t) s) = Inr ()"
  then show "fst (refreshAccessToken P now3 (Some t) (snd (logoutUser now (Some t) s))) =
         Inl InvalidOrExpiredToken \<or>
       fst (refreshAccessToken P now3 (Some t) (snd (logoutUser now (Some t) s))) =
         Inl StoreFault"
    by (intro refresh_no_active_row logoutUser_revoked) simp_all
next
  assume a: "t \<noteq> [] \<and> fst (logoutUser now (Some t) s) = Inr ()"
  assume "healthy (snd (logoutUser now (Some t) s))"
  with a show "fst (refreshAccessToken P now3 (Some t) (snd (logoutUser now (Some t) s))) =
           Inl InvalidOrExpiredToken"
    by (intro refresh_no_active_row logoutUser_revoked) simp_all
qed

theorem logout_revokes_witness:
  "falsy None \<and> logoutUser 3 None logged_in = (Inr (), logged_in) \<and>
   healthy logged_in \<and>
   fst (logoutUser 3 (Some ''Ri.tt'') logged_in) = Inr () \<and>
   snd (logoutUser 3 (Some ''Ri.tt'') logged_in) = logged_out \<and>
   fst (logoutUser 4 (Some ''Ri.tt'') logged_out) = Inr () \<and>
   ''Ri.tt'' \<noteq> [] \<and> healthy logged_out \<and>
   fst (refreshAccessToken toy 5 (Some ''Ri.tt'') logged_in) =
     Inr \<lparr>accessToken = ''Aalice'', user = \<lparr>id' = 1, username = ''alice'', email = ''a@x.com''\<rparr>\<rparr> \<and>
   fst (refreshAccessToken toy 5 (Some ''Ri.tt'') logged_out) = Inl InvalidOrExpiredToken \<and>
   fst (logoutUser 3 (Some ''never-issued'') logged_in) = Inr ()"
  using logout_revokes [of None 3 logged_in 4 "''Ri.tt''" toy 5]
        logout_revokes [of "Some ''Ri.tt''" 3 logged_in 4 "''Ri.tt''" toy 5]
        logout_revokes [of "Some ''never-issued''" 3 logged_in 4 "''Ri.tt''" toy 5]
  by (simp add: logged_out_eq logged_in_eq registered_eq conn_eval auth_eval)

text \<open>
  Claim C10. When register fails with the duplicate-user-name or the duplicate-e-mail
  error, the database is as before, and the only calls made are those of the one
  existence check: no password was hashed and no insert was sent.
\<close>

theorem register_duplicate_no_effect:
  assumes "fst (registerUser P now u e password salt s) = Inl DuplicateUsername \<or>
           fst (registerUser P now u e password salt s) = Inl DuplicateEmail"
  shows "db (snd (registerUser P now u e password salt s)) = db s \<and>
         trace (snd (registerUser P now u e password salt s)) =
           trace s @ [Acquired, Execute (checkUserSql u e), Released]"
proof -
  let ?q = "executeQuery now (checkUserSql u e) s"
  note errs = DuplicateUsername_def DuplicateEmail_def CreationFailed_def
  have ins: "fst (executeQuery now' (insertUserSql u e h) s') \<noteq> Inl (Error m)" for now' h s' m
    using executeQuery_cases [of now' "insertUserSql u e h" s'] by (auto split: if_splits)
  have get: "fst (executeQuery now' (getUserSql u) s') \<noteq> Inl (Error m)" for now' s' m
    using executeQuery_cases [of now' "getUserSql u" s'] by auto
  obtain rows where q: "fst ?q = Inr rows"
    using assms executeQuery_cases [of now "checkUserSql u e" s]
    by (cases "fst ?q") (auto simp: registerUser_def case_prod_unfold errs)
  have "duplicate_error u e rows \<noteq> None"
  proof
    assume "duplicate_error u e rows = None"
    then show False
      using assms q ins get
      by (auto simp: registerUser_def case_prod_unfold Let_def errs
            split: sum.splits list.splits)
  qed
  then have "snd (registerUser P now u e password salt s) = snd ?q"
    using q by (auto simp: registerUser_def case_prod_unfold)
  then show ?thesis
    using executeQuery_Inr [OF q] by simp
qed

theorem register_duplicate_no_effect_witness:
  "fst (registerUser toy 2 ''alice'' ''other@x.com'' ''pw2'' ''s2'' registered) = Inl DuplicateUsername \<and>
   db (snd (registerUser toy 2 ''alice'' ''other@x.com'' ''pw2'' ''s2'' registered)) = db registered \<and>
   trace (snd (registerUser toy 2 ''alice'' ''other@x.com'' ''pw2'' ''s2'' registered)) =
     trace registered @ [Acquired, Execute (checkUserSql ''alice'' ''other@x.com''), Released] \<and>
   fst (registerUser toy 2 ''carol'' ''a@x.com'' ''pw2'' ''s2'' registered) = Inl DuplicateEmail \<and>
   db (snd (registerUser toy 2 ''carol'' ''a@x.com'' ''pw2'' ''s2'' registered)) = db registered"
proof -
  have h1: "fst (registerUser toy 2 ''alice'' ''other@x.com'' ''pw2'' ''s2'' registered) = Inl DuplicateUsername"
    by (simp add: registered_eq conn_eval auth_eval)
  have h2: "fst (registerUser toy 2 ''carol'' ''a@x.com'' ''pw2'' ''s2'' registered) = Inl DuplicateEmail"
    by (simp add: registered_eq conn_eval auth_eval)
  show ?thesis
    using h1 h2 register_duplicate_no_effect [OF disjI1, OF h1]
      register_duplicate_no_effect [OF disjI2, OF h2]
    by simp
qed

subsection \<open>The token lookup\<close>

lemma filter_key_unique:
  "distinct (map f xs) \<Longrightarrow> x \<in> set xs \<Longrightarrow> filter (\<lambda>y. f y = f x) xs = [x]"
proof (induction xs)
  case Nil
  then show ?case by simp
next
  case (Cons a xs)
  show ?case
  proof (cases "x = a")
    case True
    have "f a \<notin> f ` set xs"
      using Cons.prems(1) by simp
    then have "\<forall>y\<in>set xs. f y \<noteq> f a"
      by (metis imageI)
    then have "filter (\<lambda>y. f y = f a) xs = []"
      by (simp add: filter_empty_conv)
    with True show ?thesis by simp
  next
    case False
    with Cons.prems have "x \<in> set xs" and "f a \<noteq> f x" by auto
    with Cons show ?thesis by simp
  qed
qed

lemma active_token_filter:
  "filter (active_token now t) ts =
     filter (\<lambda>r. \<not> IS_REVOKED r \<and> now < EXPIRES_AT r) (filter (\<lambda>r. TOKEN r = t) ts)"
  by (induction ts) (auto simp: active_token_def)

lemma check_token_single:
  assumes "filter (\<lambda>r. TOKEN r = t) (tokens d) = [row]"
    and "filter (\<lambda>x. ID x = USER_ID row) (users d) = [urow]"
  shows "check_token now t d = (if \<not> IS_REVOKED row \<and> now < EXPIRES_AT row then [urow] else [])"
  using assms by (simp add: check_token_def active_token_filter)

lemma wf_token_owner:
  assumes "schema_ok d" and "r \<in> set (tokens d)"
  shows "\<exists>x\<in>set (users d). ID x = USER_ID r \<and> filter (\<lambda>y. ID y = USER_ID r) (users d) = [x]"
proof -
  from assms obtain x where x: "x \<in> set (users d)" "ID x = USER_ID r"
    by (auto simp: schema_ok_def)
  have "filter (\<lambda>y. ID y = ID x) (users d) = [x]"
    using assms(1) x(1) by (intro filter_key_unique) (simp_all add: schema_ok_def)
  with x show ?thesis by auto
qed

lemma wf_token_row:
  assumes "schema_ok d" and "r \<in> set (tokens d)"
  shows "filter (\<lambda>y. TOKEN y = TOKEN r) (tokens d) = [r]"
  using assms by (intro filter_key_unique) (simp_all add: schema_ok_def)

lemma check_token_wf:
  assumes "schema_ok d"
  shows "(check_token now t d \<noteq> [] \<longleftrightarrow>
            (\<exists>r\<in>set (tokens d). TOKEN r = t \<and> \<not> IS_REVOKED r \<and> now < EXPIRES_AT r)) \<and>
         (\<forall>r\<in>set (tokens d). TOKEN r = t \<and> \<not> IS_REVOKED r \<and> now < EXPIRES_AT r \<longrightarrow>
            (\<exists>x\<in>set (users d). ID x = USER_ID r \<and> check_token now t d = [x]))"
proof -
  have hit: "\<exists>x\<in>set (users d). ID x = USER_ID r \<and> check_token now t d = [x]"
    if r: "r \<in> set (tokens d)" "TOKEN r = t" "\<not> IS_REVOKED r" "now < EXPIRES_AT r" for r
  proof -
    from wf_token_owner [OF assms r(1)] obtain x where
      x: "x \<in> set (users d)" "ID x = USER_ID r" "filter (\<lambda>y. ID y = USER_ID r) (users d) = [x]"
      by blast
    have "filter (\<lambda>y. TOKEN y = t) (tokens d) = [r]"
      using wf_token_row [OF assms r(1)] r(2) by simp
    from check_token_single [OF this x(3)] r x show ?thesis by auto
  qed
  have miss: "check_token now t d = []"
    if "\<not> (\<exists>r\<in>set (tokens d). TOKEN r = t \<and> \<not> IS_REVOKED r \<and> now < EXPIRES_AT r)"
    using that by (intro check_token_empty) (auto simp: active_token_def)
  show ?thesis using hit miss by fastforce
qed

text \<open>
  Claim C6. In a database that satisfies its schema (every database the service reaches
  from the empty one does, by \<open>reachable_schema_ok\<close>), and while the store answers, the
  lookup that refresh sends returns a row if and only if some row of the token table
  carries the token, is not revoked and expires strictly after now; the row returned is
  then exactly the user row of that token's owner, and refresh succeeds with that
  identity. In every other case (no such token, revoked, expired) the result is the same
  empty list, and refresh with a token that verifies fails with \<open>InvalidOrExpiredToken\<close>.
\<close>

theorem token_lookup_active:
  assumes "schema_ok (db s)" and "healthy s"
  shows "\<exists>rows.
           fst (executeQuery now (checkTokenSql t) s) = Inr rows \<and>
           (rows \<noteq> [] \<longleftrightarrow>
              (\<exists>r\<in>set (tokens (db s)). TOKEN r = t \<and> \<not> IS_REVOKED r \<and> now < EXPIRES_AT r)) \<and>
           (\<forall>r\<in>set (tokens (db s)). TOKEN r = t \<and> \<not> IS_REVOKED r \<and> now < EXPIRES_AT r \<longrightarrow>
              (\<exists>x\<in>set (users (db s)). ID x = USER_ID r \<and> rows = [x])) \<and>
           (t \<noteq> [] \<and> verifyRefreshToken P t now \<longrightarrow>
              fst (refreshAccessToken P now (Some t) s) =
                (case rows of
                   [] \<Rightarrow> Inl InvalidOrExpiredToken
                 | x # _ \<Rightarrow>
                     Inr \<lparr>accessToken = generateAccessToken P (ID x) (USERNAME x) (EMAIL x) now,
                           user = \<lparr>id' = ID x, username = USERNAME x, email = EMAIL x\<rparr>\<rparr>))"
proof -
  have q: "fst (executeQuery now (checkTokenSql t) s) = Inr (check_token now t (db s))"
    using assms(2) by simp
  have r: "t \<noteq> [] \<and> verifyRefreshToken P t now \<longrightarrow>
              fst (refreshAccessToken P now (Some t) s) =
                (case check_token now t (db s) of
                   [] \<Rightarrow> Inl InvalidOrExpiredToken
                 | x # _ \<Rightarrow>
                     Inr \<lparr>accessToken = generateAccessToken P (ID x) (USERNAME x) (EMAIL x) now,
                           user = \<lparr>id' = ID x, username = USERNAME x, email = EMAIL x\<rparr>\<rparr>)"
    using q by (simp add: refreshAccessToken_def case_prod_unfold split: list.splits)
  show ?thesis
    using q r check_token_wf [OF assms(1), of now t] by blast
qed

theorem token_lookup_active_witness:
  "schema_ok (db logged_in) \<and> healthy logged_in \<and>
   fst (executeQuery 4 (checkTokenSql ''Ri.tt'') logged_in) =
     Inr [\<lparr>ID = 1, USERNAME = ''alice'', EMAIL = ''a@x.com'', PASSWORD_HASH = ''s1pw1'',
            CREATED_AT = 1, UPDATED_AT = 1\<rparr>] \<and>
   fst (refreshAccessToken toy 4 (Some ''Ri.tt'') logged_in) =
     Inr \<lparr>accessToken = ''Aalice'', user = \<lparr>id' = 1, username = ''alice'', email = ''a@x.com''\<rparr>\<rparr> \<and>
   fst (executeQuery 604800002 (checkTokenSql ''Ri.tt'') logged_in) = Inr [] \<and>
   fst (executeQuery 4 (checkTokenSql ''Rnever'') logged_in) = Inr [] \<and>
   schema_ok (db logged_out) \<and> healthy logged_out \<and>
   fst (executeQuery 4 (checkTokenSql ''Ri.tt'') logged_out) = Inr [] \<and>
   fst (refreshAccessToken toy 4 (Some ''Ri.tt'') logged_out) = Inl InvalidOrExpiredToken"
proof -
  have w1: "schema_ok (db logged_in)" and h1: "healthy logged_in"
    by (simp_all add: logged_in_eq registered_eq schema_ok_def healthy_def)
  have w2: "schema_ok (db logged_out)" and h2: "healthy logged_out"
    by (simp_all add: logged_out_eq logged_in_eq registered_eq schema_ok_def healthy_def)
  show ?thesis
    using w1 h1 w2 h2
      token_lookup_active [OF w1 h1, of 4 "''Ri.tt''" toy]
      token_lookup_active [OF w2 h2, of 4 "''Ri.tt''" toy]
    by (simp add: logged_out_eq logged_in_eq registered_eq conn_eval auth_eval)
qed

subsection \<open>Register\<close>

lemma registerUser_duplicate:
  assumes "healthy s"
    and "matching_users (checkUserSql u e) (\<lambda>r. USERNAME r = u \<or> EMAIL r = e) (db s) = first # rest"
  shows "fst (registerUser P now u e password salt s) =
           Inl (if USERNAME first = u then DuplicateUsername else DuplicateEmail)"
proof -
  have "first \<in> set (matching_users (checkUserSql u e) (\<lambda>r. USERNAME r = u \<or> EMAIL r = e) (db s))"
    using assms(2) by simp
  then have "USERNAME first = u \<or> EMAIL first = e"
    by simp
  then show ?thesis
    using assms
    by (auto simp: registerUser_def case_prod_unfold duplicate_error_def)
qed

lemma matching_users_Cons:
  assumes "x \<in> set (users d)" and "p x"
  shows "\<exists>first rest. matching_users q p d = first # rest \<and> first \<in> set (users d) \<and> p first"
proof -
  have "x \<in> set (matching_users q p d)"
    using assms by simp
  then obtain first rest where fr: "matching_users q p d = first # rest"
    by (cases "matching_users q p d") auto
  then have "first \<in> set (matching_users q p d)" by simp
  then have "first \<in> set (users d) \<and> p first"
    by simp
  with fr show ?thesis by blast
qed

text \<open>
  Claim C4, as the code has it. While the store answers, register fails with the
  duplicate error that the first row of the existence check decides, whichever row with
  the user name or the e-mail address the store returns first (the statement has no
  \<open>ORDER BY\<close>): \<open>DuplicateUsername\<close> when that row has the user name (also when the same
  row has the e-mail address too), \<open>DuplicateEmail\<close> otherwise. So, in whatever order
  the store returns rows: \<open>DuplicateUsername\<close> is reported when a row has the user name
  and no row of another user has the e-mail address, \<open>DuplicateEmail\<close> when a row has
  the e-mail address and no row has the user name, and one of the two whenever some row
  has the user name or the e-mail address.
\<close>

theorem register_duplicate_first_row:
  assumes "healthy s"
  shows "(\<forall>first rest.
            matching_users (checkUserSql u e) (\<lambda>r. USERNAME r = u \<or> EMAIL r = e) (db s)
              = first # rest \<longrightarrow>
            fst (registerUser P now u e password salt s) =
              Inl (if USERNAME first = u then DuplicateUsername else DuplicateEmail)) \<and>
         ((\<exists>r\<in>set (users (db s)). USERNAME r = u) \<and>
          (\<forall>r\<in>set (users (db s)). EMAIL r = e \<longrightarrow> USERNAME r = u) \<longrightarrow>
            fst (registerUser P now u e password salt s) = Inl DuplicateUsername) \<and>
         ((\<exists>r\<in>set (users (db s)). EMAIL r = e) \<and>
          (\<forall>r\<in>set (users (db s)). USERNAME r \<noteq> u) \<longrightarrow>
            fst (registerUser P now u e password salt s) = Inl DuplicateEmail) \<and>
         ((\<exists>r\<in>set (users (db s)). USERNAME r = u \<or> EMAIL r = e) \<longrightarrow>
            fst (registerUser P now u e password salt s) = Inl DuplicateUsername \<or>
            fst (registerUser P now u e password salt s) = Inl DuplicateEmail)"
proof (intro conjI allI impI)
  fix first rest
  assume "matching_users (checkUserSql u e) (\<lambda>r. USERNAME r = u \<or> EMAIL r = e) (db s)
            = first # rest"
  with assms show "fst (registerUser P now u e password salt s) =
      Inl (if USERNAME first = u then DuplicateUsername else DuplicateEmail)"
    by (rule registerUser_duplicate)
next
  assume a: "(\<exists>r\<in>set (users (db s)). USERNAME r = u) \<and>
             (\<forall>r\<in>set (users (db s)). EMAIL r = e \<longrightarrow> USERNAME r = u)"
  then obtain x where "x \<in> set (users (db s))" "USERNAME x = u \<or> EMAIL x = e" by blast
  from matching_users_Cons [of x "db s" "\<lambda>r. USERNAME r = u \<or> EMAIL r = e" "checkUserSql u e",
      OF this]
  obtain first rest where
    fr: "matching_users (checkUserSql u e) (\<lambda>r. USERNAME r = u \<or> EMAIL r = e) (db s)
           = first # rest"
      "first \<in> set (users (db s))" "USERNAME first = u \<or> EMAIL first = e"
    by blast
  with a have "USERNAME first = u" by blast
  with registerUser_duplicate [OF assms fr(1)]
  show "fst (registerUser P now u e password salt s) = Inl DuplicateUsername" by simp
next
  assume a: "(\<exists>r\<in>set (users (db s)). EMAIL r = e) \<and>
             (\<forall>r\<in>set (users (db s)). USERNAME r \<noteq> u)"
  then obtain x where "x \<in> set (users (db s))" "USERNAME x = u \<or> EMAIL x = e" by blast
  from matching_users_Cons [of x "db s" "\<lambda>r. USERNAME r = u \<or> EMAIL r = e" "checkUserSql u e",
      OF this]
  obtain first rest where
    fr: "matching_users (checkUserSql u e) (\<lambda>r. USERNAME r = u \<or> EMAIL r = e) (db s)
           = first # rest"
      "first \<in> set (users (db s))" "USERNAME first = u \<or> EMAIL first = e"
    by blast
  with a have "USERNAME first \<noteq> u" by blast
  with registerUser_duplicate [OF assms fr(1)]
  show "fst (registerUser P now u e password salt s) = Inl DuplicateEmail" by simp
next
  assume "\<exists>r\<in>set (users (db s)). USERNAME r = u \<or> EMAIL r = e"
  then obtain x where "x \<in> set (users (db s))" "USERNAME x = u \<or> EMAIL x = e" by blast
  from matching_users_Cons [of x "db s" "\<lambda>r. USERNAME r = u \<or> EMAIL r = e" "checkUserSql u e",
      OF this]
  obtain first rest where
    "matching_users (checkUserSql u e) (\<lambda>r. USERNAME r = u \<or> EMAIL r = e) (db s)
       = first # rest"
    by blast
  from registerUser_duplicate [OF assms this]
  show "fst (registerUser P now u e password salt s) = Inl DuplicateUsername \<or>
        fst (registerUser P now u e password salt s) = Inl DuplicateEmail"
    by (cases "USERNAME first = u") simp_all
qed

lemma two_users_check:
  "matching_users (checkUserSql ''u'' ''e@x.com'')
     (\<lambda>r. USERNAME r = ''u'' \<or> EMAIL r = ''e@x.com'') (db (two_users by_id)) =
     [\<lparr>ID = 1, USERNAME = ''bob'', EMAIL = ''e@x.com'', PASSWORD_HASH = ''s1pw'',
       CREATED_AT = 1, UPDATED_AT = 1\<rparr>,
      \<lparr>ID = 2, USERNAME = ''u'', EMAIL = ''x@x.com'', PASSWORD_HASH = ''s2pw'',
       CREATED_AT = 2, UPDATED_AT = 2\<rparr>]"
  "matching_users (checkUserSql ''u'' ''e@x.com'')
     (\<lambda>r. USERNAME r = ''u'' \<or> EMAIL r = ''e@x.com'') (db (two_users username_first)) =
     [\<lparr>ID = 2, USERNAME = ''u'', EMAIL = ''x@x.com'', PASSWORD_HASH = ''s2pw'',
       CREATED_AT = 2, UPDATED_AT = 2\<rparr>,
      \<lparr>ID = 1, USERNAME = ''bob'', EMAIL = ''e@x.com'', PASSWORD_HASH = ''s1pw'',
       CREATED_AT = 1, UPDATED_AT = 1\<rparr>]"
  by (simp_all add: two_users_eq matching_users_def in_store_order_def by_id_def
        username_first_def)

lemma two_users_healthy: "healthy (two_users rank)"
  by (simp add: healthy_def two_users_eq)

theorem register_duplicate_first_row_witness:
  "healthy (two_users by_id) \<and> healthy (two_users username_first) \<and>
   fst (registerUser toy 3 ''u'' ''new@x.com'' ''p2'' ''s3'' (two_users by_id)) =
     Inl DuplicateUsername \<and>
   fst (registerUser toy 3 ''u'' ''x@x.com'' ''p2'' ''s3'' (two_users by_id)) =
     Inl DuplicateUsername \<and>
   fst (registerUser toy 3 ''new'' ''e@x.com'' ''p2'' ''s3'' (two_users by_id)) =
     Inl DuplicateEmail \<and>
   hd (matching_users (checkUserSql ''u'' ''e@x.com'')
         (\<lambda>r. USERNAME r = ''u'' \<or> EMAIL r = ''e@x.com'') (db (two_users username_first))) =
     \<lparr>ID = 2, USERNAME = ''u'', EMAIL = ''x@x.com'', PASSWORD_HASH = ''s2pw'',
       CREATED_AT = 2, UPDATED_AT = 2\<rparr> \<and>
   fst (registerUser toy 3 ''u'' ''e@x.com'' ''p2'' ''s3'' (two_users username_first)) =
     Inl DuplicateUsername \<and>
   hd (matching_users (checkUserSql ''u'' ''e@x.com'')
         (\<lambda>r. USERNAME r = ''u'' \<or> EMAIL r = ''e@x.com'') (db (two_users by_id))) =
     \<lparr>ID = 1, USERNAME = ''bob'', EMAIL = ''e@x.com'', PASSWORD_HASH = ''s1pw'',
       CREATED_AT = 1, UPDATED_AT = 1\<rparr> \<and>
   fst (registerUser toy 3 ''u'' ''e@x.com'' ''p2'' ''s3'' (two_users by_id)) =
     Inl DuplicateEmail"
proof -
  note h = two_users_healthy
  note errs = DuplicateUsername_def DuplicateEmail_def
  have a: "fst (registerUser toy 3 ''u'' ''new@x.com'' ''p2'' ''s3'' (two_users by_id)) =
      Inl DuplicateUsername"
    using register_duplicate_first_row [OF h [of by_id], of "''u''" "''new@x.com''" toy 3 "''p2''" "''s3''"]
    by (simp add: two_users_eq)
  have b: "fst (registerUser toy 3 ''u'' ''x@x.com'' ''p2'' ''s3'' (two_users by_id)) =
      Inl DuplicateUsername"
    using register_duplicate_first_row [OF h [of by_id], of "''u''" "''x@x.com''" toy 3 "''p2''" "''s3''"]
    by (simp add: two_users_eq)
  have c: "fst (registerUser toy 3 ''new'' ''e@x.com'' ''p2'' ''s3'' (two_users by_id)) =
      Inl DuplicateEmail"
    using register_duplicate_first_row [OF h [of by_id], of "''new''" "''e@x.com''" toy 3 "''p2''" "''s3''"]
    by (simp add: two_users_eq)
  have d: "fst (registerUser toy 3 ''u'' ''e@x.com'' ''p2'' ''s3'' (two_users username_first)) =
      Inl DuplicateUsername"
    using register_duplicate_first_row [OF h [of username_first], of "''u''" "''e@x.com''" toy 3 "''p2''" "''s3''"]
    by (simp add: two_users_check)
  have e: "fst (registerUser toy 3 ''u'' ''e@x.com'' ''p2'' ''s3'' (two_users by_id)) =
      Inl DuplicateEmail"
    using register_duplicate_first_row [OF h [of by_id], of "''u''" "''e@x.com''" toy 3 "''p2''" "''s3''"]
    by (simp add: two_users_check)
  show ?thesis
    using h [of by_id] h [of username_first] a b c d e
    by (simp add: two_users_check)
qed

text \<open>
  Claim C4 as the spec words it fails on a store that returns the rows of the check by
  primary key: with bob registered under \<open>e@x.com\<close> and then \<open>u\<close> under \<open>x@x.com\<close>, a
  registration of \<open>u\<close> with \<open>e@x.com\<close> collides on both fields, the first row of the
  check is bob's, and the error is the e-mail one. (On a store that returns the row
  found through the user name first, the same call reports the user name: the witness
  above has both.)
\<close>

theorem register_username_priority_counterexample:
  "''u'' \<in> USERNAME ` set (users (db (two_users by_id))) \<and>
   ''e@x.com'' \<in> EMAIL ` set (users (db (two_users by_id))) \<and>
   healthy (two_users by_id) \<and>
   fst (registerUser toy 3 ''u'' ''e@x.com'' ''p2'' ''s3'' (two_users by_id)) = Inl DuplicateEmail \<and>
   fst (registerUser toy 3 ''u'' ''e@x.com'' ''p2'' ''s3'' (two_users by_id)) \<noteq> Inl DuplicateUsername"
proof -
  have "fst (registerUser toy 3 ''u'' ''e@x.com'' ''p2'' ''s3'' (two_users by_id)) = Inl DuplicateEmail"
    using registerUser_duplicate [OF two_users_healthy two_users_check(1), of toy 3 "''p2''" "''s3''"]
    by simp
  then show ?thesis
    using two_users_healthy [of by_id]
    by (simp add: two_users_eq DuplicateUsername_def DuplicateEmail_def)
qed

subsection \<open>A session between login and logout\<close>

lemma refreshAccessToken_db: "db (snd (refreshAccessToken P now a s)) = db s"
proof (cases a)
  case None
  then show ?thesis by (simp add: refreshAccessToken_def)
next
  case (Some t)
  have "db (snd (executeQuery now (checkTokenSql t) s)) = db s"
    using executeQuery_cases [of now "checkTokenSql t" s] by auto
  with Some show ?thesis
    by (simp add: refreshAccessToken_def case_prod_unfold split: sum.splits list.splits)
qed

lemma filter_singleton_member:
  assumes "filter p xs = [x]"
  shows "x \<in> set xs" and "p x"
proof -
  have "x \<in> set (filter p xs)"
    using assms by simp
  then show "x \<in> set xs" and "p x"
    by simp_all
qed

lemma filter_key_absent:
  assumes "k \<notin> f ` set xs"
  shows "filter (\<lambda>y. f y = k) xs = []"
proof -
  from assms have "\<forall>y\<in>set xs. f y \<noteq> k"
    by (metis imageI)
  then show ?thesis
    by (simp add: filter_empty_conv)
qed

lemma run_sql_keeps_session:
  assumes ok: "schema_ok d"
    and tok: "filter (\<lambda>r. TOKEN r = t) (tokens d) = [row]"
    and own: "filter (\<lambda>x. ID x = USER_ID row) (users d) = [urow]"
    and q: "q \<noteq> revokeSql t"
  shows "filter (\<lambda>r. TOKEN r = t) (tokens (snd (run_sql now q d))) = [row] \<and>
         filter (\<lambda>x. ID x = USER_ID row) (users (snd (run_sql now q d))) = [urow]"
proof -
  have row: "row \<in> set (tokens d)" "TOKEN row = t"
    using filter_singleton_member [OF tok] by simp_all
  have urow: "urow \<in> set (users d)" "ID urow = USER_ID row"
    using filter_singleton_member [OF own] by simp_all
  show ?thesis
  proof (cases q)
    case (insertUserSql u e h)
    have "ID urow < next_id d"
      using ok urow(1) by (simp add: schema_ok_def list_all_iff)
    then have "next_id d \<noteq> USER_ID row"
      using urow(2) by simp
    with insertUserSql tok own show ?thesis by simp
  next
    case (insertTokenSql uid t' ex)
    have "token_insertable uid t' d \<Longrightarrow> t' \<noteq> t"
      using row by (auto simp: token_insertable_def)
    with insertTokenSql tok own show ?thesis by auto
  next
    case (revokeSql t')
    with q have "t' \<noteq> t" by simp
    then have "revoke t' row = row"
      using row(2) by (simp add: revoke_def)
    with revokeSql tok own show ?thesis
      by (simp add: filter_map_revoke)
  qed (use tok own in simp_all)
qed

lemma evolves_keeps_session:
  assumes "evolves (\<lambda>q. q \<noteq> revokeSql t) d d'"
    and "schema_ok d"
    and "filter (\<lambda>r. TOKEN r = t) (tokens d) = [row]"
    and "filter (\<lambda>x. ID x = USER_ID row) (users d) = [urow]"
  shows "schema_ok d' \<and> filter (\<lambda>r. TOKEN r = t) (tokens d') = [row] \<and>
         filter (\<lambda>x. ID x = USER_ID row) (users d') = [urow]"
  using assms
proof (induction rule: evolves.induct)
  case (evolves_refl d)
  then show ?case by simp
next
  case (evolves_step d d' q now)
  then have "schema_ok d' \<and> filter (\<lambda>r. TOKEN r = t) (tokens d') = [row] \<and>
         filter (\<lambda>x. ID x = USER_ID row) (users d') = [urow]"
    by simp
  with evolves_step.hyps(2) show ?case
    using run_sql_keeps_session [of d' t row urow q now] run_sql_schema_ok [of d' now q]
    by simp
qed

lemma run_without_logout:
  assumes "Logout (Some t) \<notin> snd ` set cs"
  shows "evolves (\<lambda>q. q \<noteq> revokeSql t) (db s) (db (run P cs s))"
proof (rule run_evolves)
  fix now c q
  assume "(now, c) \<in> set cs" and "sent_by c q"
  with assms show "q \<noteq> revokeSql t"
    by (force simp: sent_by_def)
qed

lemma session_after_login:
  assumes login: "loginUser P now u password s = (Inr r, s1)"
    and ok: "schema_ok (db s)"
    and calls: "Logout (Some (refreshToken r)) \<notin> snd ` set cs"
  shows "\<exists>urow. user r = \<lparr>id' = ID urow, username = USERNAME urow, email = EMAIL urow\<rparr> \<and>
           check_token now' (refreshToken r) (db (run P cs s1)) =
             (if now' < setDate_plus P now 7 then [urow] else [])"
proof -
  from loginUser_Inr [OF login] obtain urow rest where
    m: "matching_users (loginUserSql u) (\<lambda>x. USERNAME x = u \<or> EMAIL x = u) (db s) = urow # rest"
    and r: "user r = \<lparr>id' = ID urow, username = USERNAME urow, email = EMAIL urow\<rparr>"
    and us: "users (db s1) = users (db s)"
    and ts: "tokens (db s1) = tokens (db s) @
       [\<lparr>USER_ID = ID urow, TOKEN = refreshToken r, EXPIRES_AT = setDate_plus P now 7,
         RT_CREATED_AT = now, IS_REVOKED = False\<rparr>]"
    and new: "refreshToken r \<notin> TOKEN ` set (tokens (db s))"
    by auto
  let ?row = "\<lparr>USER_ID = ID urow, TOKEN = refreshToken r, EXPIRES_AT = setDate_plus P now 7,
         RT_CREATED_AT = now, IS_REVOKED = False\<rparr>"
  have "urow \<in> set (matching_users (loginUserSql u) (\<lambda>x. USERNAME x = u \<or> EMAIL x = u) (db s))"
    using m by simp
  then have mem: "urow \<in> set (users (db s))"
    by simp
  have own: "filter (\<lambda>x. ID x = USER_ID ?row) (users (db s1)) = [urow]"
    using filter_key_unique [of ID "users (db s)" urow] ok mem us
    by (simp add: schema_ok_def)
  have "filter (\<lambda>x. TOKEN x = refreshToken r) (tokens (db s)) = []"
    using new by (rule filter_key_absent)
  then have tok: "filter (\<lambda>x. TOKEN x = refreshToken r) (tokens (db s1)) = [?row]"
    using ts by simp
  have "evolves (sent_by (Login u password)) (db s) (db (snd (loginUser P now u password s)))"
    by (rule loginUser_evolves)
  then have ok1: "schema_ok (db s1)"
    using login ok by (auto dest: evolves_schema_ok)
  from evolves_keeps_session [OF run_without_logout [OF calls] ok1 tok own, of P]
  have "filter (\<lambda>x. TOKEN x = refreshToken r) (tokens (db (run P cs s1))) = [?row]"
    and "filter (\<lambda>x. ID x = USER_ID ?row) (users (db (run P cs s1))) = [urow]"
    by simp_all
  from check_token_single [OF this, of now'] r show ?thesis
    by auto
qed

text \<open>
  Claim C2. Refresh never changes the database, whatever its argument and outcome. For
  a refresh token returned by a successful login, in a database that satisfies its
  schema: after any further calls of the service other than a logout of that token
  (refreshes of it among them), and while the store answers, a refresh with the token
  succeeds with the identity of the user who logged in, at every time before the
  expiry the login stored (the instant \<open>setDate(getDate() + 7)\<close> gave it) at which the
  token's own signature check passes; and from that expiry on it fails with
  \<open>InvalidOrExpiredToken\<close>, whether the signature check passes or not.
\<close>

theorem refresh_validity_window:
  "db (snd (refreshAccessToken P now0 a s0)) = db s0 \<and>
   (loginUser P now u password s = (Inr r, s1) \<and> schema_ok (db s) \<and> refreshToken r \<noteq> [] \<and>
    Logout (Some (refreshToken r)) \<notin> snd ` set cs \<and> healthy (run P cs s1) \<longrightarrow>
      (now' < setDate_plus P now 7 \<and> verifyRefreshToken P (refreshToken r) now' \<longrightarrow>
         fst (refreshAccessToken P now' (Some (refreshToken r)) (run P cs s1)) =
           Inr \<lparr>accessToken = generateAccessToken P (id' (user r)) (username (user r))
                                 (email (user r)) now',
                 user = user r\<rparr>) \<and>
      (setDate_plus P now 7 \<le> now' \<longrightarrow>
         fst (refreshAccessToken P now' (Some (refreshToken r)) (run P cs s1)) =
           Inl InvalidOrExpiredToken))"
proof (intro conjI impI)
  show "db (snd (refreshAccessToken P now0 a s0)) = db s0"
    by (rule refreshAccessToken_db)
next
  assume a: "loginUser P now u password s = (Inr r, s1) \<and> schema_ok (db s) \<and>
    refreshToken r \<noteq> [] \<and> Logout (Some (refreshToken r)) \<notin> snd ` set cs \<and>
    healthy (run P cs s1)"
  assume b: "now' < setDate_plus P now 7 \<and> verifyRefreshToken P (refreshToken r) now'"
  from a session_after_login [of P now u password s r s1 cs now'] obtain urow where
    r: "user r = \<lparr>id' = ID urow, username = USERNAME urow, email = EMAIL urow\<rparr>" and
    c: "check_token now' (refreshToken r) (db (run P cs s1)) =
          (if now' < setDate_plus P now 7 then [urow] else [])"
    by blast
  have "fst (executeQuery now' (checkTokenSql (refreshToken r)) (run P cs s1)) = Inr [urow]"
    using a b c by simp
  then show "fst (refreshAccessToken P now' (Some (refreshToken r)) (run P cs s1)) =
           Inr \<lparr>accessToken = generateAccessToken P (id' (user r)) (username (user r))
                                 (email (user r)) now',
                 user = user r\<rparr>"
    using a b r by (simp add: refreshAccessToken_def case_prod_unfold)
next
  assume a: "loginUser P now u password s = (Inr r, s1) \<and> schema_ok (db s) \<and>
    refreshToken r \<noteq> [] \<and> Logout (Some (refreshToken r)) \<notin> snd ` set cs \<and>
    healthy (run P cs s1)"
  assume b: "setDate_plus P now 7 \<le> now'"
  from a session_after_login [of P now u password s r s1 cs now'] obtain urow where
    c: "check_token now' (refreshToken r) (db (run P cs s1)) =
          (if now' < setDate_plus P now 7 then [urow] else [])"
    by blast
  with b have "check_token now' (refreshToken r) (db (run P cs s1)) = []"
    by simp
  with a show "fst (refreshAccessToken P now' (Some (refreshToken r)) (run P cs s1)) =
           Inl InvalidOrExpiredToken"
    by (intro refresh_no_active_row) simp_all
qed

theorem refresh_validity_window_witness:
  "loginUser toy 2 ''alice'' ''pw1'' registered =
     (Inr \<lparr>accessToken = ''Aalice'',
           user = \<lparr>id' = 1, username = ''alice'', email = ''a@x.com''\<rparr>,
           refreshToken = ''Ri.tt''\<rparr>, logged_in) \<and>
   schema_ok (db registered) \<and> ''Ri.tt'' \<noteq> [] \<and>
   Logout (Some ''Ri.tt'') \<notin>
     snd ` set [(3, Refresh (Some ''Ri.tt'')), (4, GetUserById 1), (5, Logout (Some ''Rother''))] \<and>
   healthy (run toy [(3, Refresh (Some ''Ri.tt'')), (4, GetUserById 1),
                     (5, Logout (Some ''Rother''))] logged_in) \<and>
   setDate_plus toy 2 7 = 604800002 \<and>
   verifyRefreshToken toy ''Ri.tt'' 604800001 \<and>
   fst (refreshAccessToken toy 604800001 (Some ''Ri.tt'')
          (run toy [(3, Refresh (Some ''Ri.tt'')), (4, GetUserById 1),
                    (5, Logout (Some ''Rother''))] logged_in)) =
     Inr \<lparr>accessToken = ''Aalice'', user = \<lparr>id' = 1, username = ''alice'', email = ''a@x.com''\<rparr>\<rparr> \<and>
   verifyRefreshToken toy ''Ri.tt'' 604800002 \<and>
   fst (refreshAccessToken toy 604800002 (Some ''Ri.tt'')
          (run toy [(3, Refresh (Some ''Ri.tt'')), (4, GetUserById 1),
                    (5, Logout (Some ''Rother''))] logged_in)) =
     Inl InvalidOrExpiredToken \<and>
   trace (snd (refreshAccessToken toy 604800002 (Some ''Ri.tt'') logged_in)) =
     trace logged_in @ [Acquired, Execute (checkTokenSql ''Ri.tt''), Released] \<and>
   db (snd (refreshAccessToken toy 6 (Some ''Ri.tt'') logged_in)) = db logged_in"
proof -
  let ?r = "\<lparr>accessToken = ''Aalice'',
            user = \<lparr>id' = 1, username = ''alice'', email = ''a@x.com''\<rparr>,
            refreshToken = ''Ri.tt''\<rparr>"
  let ?cs = "[(3, Refresh (Some ''Ri.tt'')), (4, GetUserById 1), (5, Logout (Some ''Rother''))]"
  have login: "loginUser toy 2 ''alice'' ''pw1'' registered = (Inr ?r, logged_in)"
    by (simp add: logged_in_eq registered_eq conn_eval auth_eval)
  have ok: "schema_ok (db registered)"
    by (simp add: registered_eq schema_ok_def)
  have calls: "Logout (Some ''Ri.tt'') \<notin> snd ` set ?cs"
    by simp
  have h: "healthy (run toy ?cs logged_in)"
    by (simp add: logged_in_eq registered_eq conn_eval auth_eval)
  have v: "verifyRefreshToken toy ''Ri.tt'' 604800001" "verifyRefreshToken toy ''Ri.tt'' 604800002"
    by (simp_all add: toy_def)
  have e: "setDate_plus toy 2 7 = 604800002"
    by (simp add: toy_def)
  have frame: "db (snd (refreshAccessToken toy 6 (Some ''Ri.tt'') logged_in)) = db logged_in"
    using refresh_validity_window [where P = toy and ?now0.0 = 6 and a = "Some ''Ri.tt''"
        and ?s0.0 = logged_in]
    by simp
  have before: "fst (refreshAccessToken toy 604800001 (Some ''Ri.tt'') (run toy ?cs logged_in)) =
      Inr \<lparr>accessToken = ''Aalice'', user = \<lparr>id' = 1, username = ''alice'', email = ''a@x.com''\<rparr>\<rparr>"
    using refresh_validity_window [where P = toy and now = 2 and u = "''alice''"
        and password = "''pw1''" and s = registered and r = ?r and ?s1.0 = logged_in
        and cs = ?cs and now' = 604800001] login ok calls h v e
    by (simp add: toy_def)
  have after: "fst (refreshAccessToken toy 604800002 (Some ''Ri.tt'') (run toy ?cs logged_in)) =
      Inl InvalidOrExpiredToken"
    using refresh_validity_window [where P = toy and now = 2 and u = "''alice''"
        and password = "''pw1''" and s = registered and r = ?r and ?s1.0 = logged_in
        and cs = ?cs and now' = 604800002] login ok calls h e
    by simp
  have looked: "trace (snd (refreshAccessToken toy 604800002 (Some ''Ri.tt'') logged_in)) =
      trace logged_in @ [Acquired, Execute (checkTokenSql ''Ri.tt''), Released]"
    by (simp add: logged_in_eq registered_eq conn_eval auth_eval)
  show ?thesis
    using login ok h v e frame before after looked by simp
qed

end
